theory Spec2Isabelle
  imports Complex_Main "HOL-Library.AList" "HOL-Library.List_Lexorder" "HOL-Library.Char_ord"
begin

section \<open>Data model of the T20 score predictor (server.js)\<close>

text \<open>
  The JavaScript objects of \<^verbatim>\<open>server.js\<close> are modelled with a loose schema: a field
  that may be missing, \<^verbatim>\<open>undefined\<close> or \<^verbatim>\<open>null\<close> is an option, and the strings the code
  compares with \<^verbatim>\<open>===\<close> are constructors.

  \<^item> \<open>status\<close>: the four status strings; \<open>OtherStatus\<close> is any other value of the field
    (another string, or no value at all).
  \<^item> \<open>instant\<close>: a \<^verbatim>\<open>lockTime\<close> field. \<open>NoTime\<close> is a falsy value, \<open>InvalidTime\<close> a truthy
    value for which \<^verbatim>\<open>new Date(v).getTime()\<close> is NaN, \<open>Time t\<close> a date of \<open>t\<close> milliseconds.
  \<^item> a predictions mapping is a JavaScript object from player ids to integers: an
    association list read with \<open>map_of\<close> and written with \<open>AList.update\<close>
    (assignment keeps the position of an existing key and appends a new one).
\<close>

datatype status = Open | Locked | Scored | Pending | OtherStatus

datatype instant = NoTime | InvalidTime | Time int

record innings =
  status :: status
  lockTime :: instant
  score :: "int option"

record toss =
  winner :: "string option"
  decision :: "string option"

record inningsResult =
  winners :: "string list"
  closestDiff :: "int option"

type_synonym predictionMap = "(string \<times> int) list"

text \<open>
  \<^verbatim>\<open>match.predictions\<close> when it is an object: its keys \<^verbatim>\<open>innings1\<close> and \<^verbatim>\<open>innings2\<close>
  (\<open>None\<close> when falsy) and its other keys \<open>p_other\<close>, which are the player entries of
  the legacy flat shape. \<^verbatim>\<open>match.result\<close> likewise has the two innings keys.
\<close>

record predictionsObj =
  p_innings1 :: "predictionMap option"
  p_innings2 :: "predictionMap option"
  p_other :: predictionMap

record matchResult =
  r_innings1 :: "inningsResult option"
  r_innings2 :: "inningsResult option"

text \<open>
  A stored match. \<open>legacy_status\<close>, \<open>legacy_lockTime\<close>, \<open>actualScore\<close>,
  \<open>innings2LockTime\<close> and \<open>innings2Score\<close> are the flat fields \<^verbatim>\<open>match.status\<close>,
  \<^verbatim>\<open>match.lockTime\<close>, \<^verbatim>\<open>match.actualScore\<close>, \<^verbatim>\<open>match.innings2LockTime\<close> and
  \<^verbatim>\<open>match.innings2Score\<close> of the single-innings shape (\<open>legacy_status = None\<close> when
  \<^verbatim>\<open>match.status\<close> is falsy). \<open>predictions = None\<close> stands for a value that is falsy,
  not an object, or an array.
\<close>

record match =
  teamA :: string
  teamB :: string
  toss :: "toss option"
  innings1 :: "innings option"
  innings2 :: "innings option"
  predictions :: "predictionsObj option"
  result :: "matchResult option"
  legacy_status :: "status option"
  legacy_lockTime :: instant
  actualScore :: "int option"
  innings2LockTime :: instant
  innings2Score :: "int option"

record player =
  player_id :: string
  player_name :: string

text \<open>
  The settings the engine reads. Score bounds are JavaScript numbers, taken as
  rationals; \<open>bonusExact\<close> is taken as an integer.
\<close>

record settings =
  bonusExact :: int
  minScore :: rat
  maxScore :: rat
  lockMinutesBeforeStart :: int

text \<open>The room state \<^verbatim>\<open>data\<close> that \<^verbatim>\<open>readData\<close> returns.\<close>

record data =
  players :: "player list"
  matches :: "match list"
  settings :: settings

datatype inningsKey = Innings1 | Innings2

definition inningsOf :: "inningsKey \<Rightarrow> match \<Rightarrow> innings option" where
  "inningsOf k m = (case k of Innings1 \<Rightarrow> innings1 m | Innings2 \<Rightarrow> innings2 m)"

section \<open>Innings state machine and toss resolver\<close>

text \<open>
  \<^verbatim>\<open>isInningsLocked\<close> reads the clock (\<^verbatim>\<open>Date.now()\<close>); the reading is the
  parameter \<open>now\<close>. \<^verbatim>\<open>normalizeInningsStatus\<close> returns at once on a missing innings;
  its only caller, \<^verbatim>\<open>normalizeMatch\<close>, has assigned both innings before the call, so
  the model takes the innings itself.
\<close>

definition isInningsLocked :: "int \<Rightarrow> innings option \<Rightarrow> bool" where
  "isInningsLocked now inn =
     (case inn of
        None \<Rightarrow> True
      | Some i \<Rightarrow>
          if status i = Locked \<or> status i = Scored then True
          else if status i = Open \<and> lockTime i \<noteq> NoTime then
            (case lockTime i of Time lock \<Rightarrow> now \<ge> lock | _ \<Rightarrow> False)
          else False)"

definition normalizeInningsStatus :: "int \<Rightarrow> innings \<Rightarrow> innings" where
  "normalizeInningsStatus now i =
     (if status i = Open \<and> isInningsLocked now (Some i) then i\<lparr>status := Locked\<rparr> else i)"

definition falsy :: "string option \<Rightarrow> bool" where
  "falsy s \<longleftrightarrow> s = None \<or> s = Some []"

record battingTeams =
  bat_innings1 :: string
  bat_innings2 :: string

definition getBattingTeams :: "match \<Rightarrow> battingTeams option" where
  "getBattingTeams m =
     (case toss m of
        None \<Rightarrow> None
      | Some t \<Rightarrow>
          (case (winner t, decision t) of
             (Some w, Some d) \<Rightarrow>
               if w = [] \<or> d = [] then None
               else
                 let other = (if w = teamA m then teamB m else teamA m) in
                 if d = ''bat'' then Some \<lparr>bat_innings1 = w, bat_innings2 = other\<rparr>
                 else if d = ''field'' then Some \<lparr>bat_innings1 = other, bat_innings2 = w\<rparr>
                 else None
           | _ \<Rightarrow> None))"

section \<open>Match normalizer\<close>

text \<open>
  \<^verbatim>\<open>normalizeMatch\<close> mutates the match in place; the model returns the new match.
  The two calls of \<^verbatim>\<open>normalizeInningsStatus\<close> read the clock separately: \<open>now1\<close> for
  innings 1 and \<open>now2\<close> for innings 2. No statement of the function can throw on a
  match object: every property it reads through is either tested or just assigned.
  The statement \<^verbatim>\<open>if (!match.toss) match.toss = null\<close> changes nothing in the model,
  where an unset toss is \<open>None\<close>. \<open>effectiveInnings k m\<close> is the innings the function
  starts from: the stored one, or the one it synthesizes from the legacy fields.
\<close>

definition legacyInnings1 :: "match \<Rightarrow> innings" where
  "legacyInnings1 m =
     \<lparr>status = (case legacy_status m of None \<Rightarrow> Open | Some s \<Rightarrow> s),
      lockTime = legacy_lockTime m,
      score = actualScore m\<rparr>"

definition legacyInnings2 :: "match \<Rightarrow> innings" where
  "legacyInnings2 m =
     \<lparr>status = Pending, lockTime = innings2LockTime m, score = innings2Score m\<rparr>"

definition effectiveInnings :: "inningsKey \<Rightarrow> match \<Rightarrow> innings" where
  "effectiveInnings k m =
     (case k of
        Innings1 \<Rightarrow> (case innings1 m of None \<Rightarrow> legacyInnings1 m | Some i \<Rightarrow> i)
      | Innings2 \<Rightarrow> (case innings2 m of None \<Rightarrow> legacyInnings2 m | Some i \<Rightarrow> i))"

definition normalizePredictions :: "predictionsObj option \<Rightarrow> predictionsObj" where
  "normalizePredictions p =
     (let p1 = (case p of None \<Rightarrow> \<lparr>p_innings1 = None, p_innings2 = None, p_other = []\<rparr>
                        | Some obj \<Rightarrow> obj);
          p2 = (if p_innings1 p1 = None \<and> p_innings2 p1 = None
                then \<lparr>p_innings1 = Some (p_other p1), p_innings2 = Some [], p_other = []\<rparr>
                else p1)
      in p2\<lparr>p_innings1 := Some (case p_innings1 p2 of None \<Rightarrow> [] | Some a \<Rightarrow> a),
             p_innings2 := Some (case p_innings2 p2 of None \<Rightarrow> [] | Some b \<Rightarrow> b)\<rparr>)"

definition promoteInnings2 :: "settings \<Rightarrow> innings \<Rightarrow> innings \<Rightarrow> innings" where
  "promoteInnings2 st i1 i2 =
     (if status i1 = Scored \<and> status i2 = Pending then
        (let i2' = i2\<lparr>status := Open\<rparr> in
         if lockTime i2' = NoTime \<and> lockTime i1 \<noteq> NoTime \<and> lockMinutesBeforeStart st \<noteq> 0
         then i2'\<lparr>lockTime := NoTime\<rparr> else i2')
      else i2)"

definition normalizeMatch :: "settings \<Rightarrow> int \<Rightarrow> int \<Rightarrow> match \<Rightarrow> match" where
  "normalizeMatch st now1 now2 m =
     (let i1 = effectiveInnings Innings1 m;
          i2 = effectiveInnings Innings2 m;
          ps = normalizePredictions (predictions m);
          i2' = promoteInnings2 st i1 i2
      in m\<lparr>innings1 := Some (normalizeInningsStatus now1 i1),
            innings2 := Some (normalizeInningsStatus now2 i2'),
            predictions := Some ps\<rparr>)"

section \<open>Result calculator\<close>

text \<open>
  \<^verbatim>\<open>entries\<close> of \<^verbatim>\<open>computeInningsResult\<close>: one pair of player id and absolute difference
  for every listed player with a recorded prediction, in the order of the player list.
\<close>

fun entries :: "int \<Rightarrow> predictionMap \<Rightarrow> player list \<Rightarrow> (string \<times> int) list" where
  "entries actual preds [] = []"
| "entries actual preds (p # ps) =
     (case map_of preds (player_id p) of
        None \<Rightarrow> entries actual preds ps
      | Some prediction \<Rightarrow> (player_id p, \<bar>prediction - actual\<bar>) # entries actual preds ps)"

definition computeInningsResult ::
  "int option \<Rightarrow> predictionMap \<Rightarrow> player list \<Rightarrow> inningsResult option" where
  "computeInningsResult actualScore' preds pls =
     (case actualScore' of
        None \<Rightarrow> None
      | Some actual \<Rightarrow>
          (let es = entries actual preds pls in
           if length es = 0 then Some \<lparr>winners = [], closestDiff = None\<rparr>
           else
             let minDiff = min_list (map snd es) in
             Some \<lparr>winners = map fst (filter (\<lambda>e. snd e = minDiff) es),
                   closestDiff = Some minDiff\<rparr>))"

section \<open>Prediction ledger and reopen (request handlers)\<close>

text \<open>
  A handler answers with an error or with success, and may call \<^verbatim>\<open>saveData\<close>.
  \<open>Rejected e saved\<close> is an error response, \<open>saved\<close> being the match written by
  \<^verbatim>\<open>saveData\<close> before the response when there is one; \<open>Accepted m\<close> is the success
  response after \<^verbatim>\<open>saveData\<close> wrote \<open>m\<close>. The responses of the source are
  \<^item> \<open>TossNotSet\<close>: 400 "Set the toss before predictions.";
  \<^item> \<open>InningsNotOpen\<close>: 403 "Predictions are not open for this innings.";
  \<^item> \<open>PredictionsLocked\<close>: 403 "Predictions are locked.";
  \<^item> \<open>UnknownPlayer\<close>: 400 "Invalid player.";
  \<^item> \<open>ScoreOutOfRange\<close>: 400 "Score must be between ...";
  \<^item> \<open>InvalidAdminPin\<close>: 403 "Invalid admin PIN.";
  \<^item> \<open>ServerError\<close>: a TypeError thrown by a property access on a missing object.
\<close>

datatype error =
  TossNotSet | InningsNotOpen | PredictionsLocked | UnknownPlayer | ScoreOutOfRange
  | InvalidAdminPin | ServerError

datatype outcome = Rejected error "match option" | Accepted match

text \<open>
  \<^verbatim>\<open>Number(body.score)\<close>: a finite number, taken as a rational, or one of NaN and the
  infinities, which \<^verbatim>\<open>Number.isFinite\<close> rejects. \<^verbatim>\<open>Math.round\<close> is \<open>round\<close>
  (\<open>\<lfloor>x + 1/2\<rfloor>\<close>, ties towards plus infinity).
\<close>

datatype number = NotFinite | Finite rat

definition storePrediction :: "inningsKey \<Rightarrow> string \<Rightarrow> int \<Rightarrow> match \<Rightarrow> match option" where
  "storePrediction k pid v m =
     (case predictions m of
        None \<Rightarrow> None
      | Some ps \<Rightarrow>
          (case k of
             Innings1 \<Rightarrow>
               (case p_innings1 ps of
                  None \<Rightarrow> None
                | Some a \<Rightarrow> Some (m\<lparr>predictions := Some (ps\<lparr>p_innings1 := Some (AList.update pid v a)\<rparr>)\<rparr>))
           | Innings2 \<Rightarrow>
               (case p_innings2 ps of
                  None \<Rightarrow> None
                | Some b \<Rightarrow> Some (m\<lparr>predictions := Some (ps\<lparr>p_innings2 := Some (AList.update pid v b)\<rparr>)\<rparr>))))"

text \<open>
  The handler of \<^verbatim>\<open>POST /api/matches/:id/predict\<close> on the match it found.
  \<open>k\<close> is \<^verbatim>\<open>inningsKey\<close> (\<open>Innings2\<close> when \<^verbatim>\<open>Number(body.innings || 1) === 2\<close>), \<open>pid\<close> is
  \<^verbatim>\<open>String(body.playerId || "")\<close>, \<open>sc\<close> is \<^verbatim>\<open>Number(body.score)\<close>. \<open>now1\<close> and \<open>now2\<close> are
  the clock readings of \<^verbatim>\<open>normalizeMatch\<close>, \<open>now3\<close> the one of the later
  \<^verbatim>\<open>isInningsLocked\<close> check.
\<close>

definition predict ::
  "data \<Rightarrow> int \<Rightarrow> int \<Rightarrow> int \<Rightarrow> match \<Rightarrow> inningsKey \<Rightarrow> string \<Rightarrow> number \<Rightarrow> outcome" where
  "predict d now1 now2 now3 m0 k pid sc =
     (let m = normalizeMatch (settings d) now1 now2 m0;
          inningsData = inningsOf k m
      in
      if getBattingTeams m = None then Rejected TossNotSet None
      else if (case inningsData of None \<Rightarrow> True | Some i \<Rightarrow> status i \<noteq> Open)
        then Rejected InningsNotOpen None
      else if isInningsLocked now3 inningsData then Rejected PredictionsLocked (Some m)
      else if find (\<lambda>p. player_id p = pid) (players d) = None then Rejected UnknownPlayer None
      else
        (case sc of
           NotFinite \<Rightarrow> Rejected ScoreOutOfRange None
         | Finite x \<Rightarrow>
             if x < minScore (settings d) \<or> x > maxScore (settings d)
             then Rejected ScoreOutOfRange None
             else
               (case storePrediction k pid (round x) m of
                  None \<Rightarrow> Rejected ServerError None
                | Some m' \<Rightarrow> Accepted m')))"

text \<open>
  The handler of \<^verbatim>\<open>POST /api/matches/:id/reopen\<close> on the match it found. \<open>adminOk\<close> is
  the value of \<^verbatim>\<open>ensureAdmin(data, req.body.adminPin)\<close>; \<open>sel\<close> is \<open>Some k\<close> when
  \<^verbatim>\<open>body.innings\<close> is 1 or 2 and \<open>None\<close> otherwise (the whole match is reopened).
\<close>

definition clearResult :: "inningsKey \<Rightarrow> matchResult option \<Rightarrow> matchResult option" where
  "clearResult k res =
     (case res of
        None \<Rightarrow> None
      | Some r \<Rightarrow>
          Some (case k of Innings1 \<Rightarrow> r\<lparr>r_innings1 := None\<rparr> | Innings2 \<Rightarrow> r\<lparr>r_innings2 := None\<rparr>))"

definition reopen ::
  "bool \<Rightarrow> data \<Rightarrow> int \<Rightarrow> int \<Rightarrow> match \<Rightarrow> inningsKey option \<Rightarrow> outcome" where
  "reopen adminOk d now1 now2 m0 sel =
     (if \<not> adminOk then Rejected InvalidAdminPin None
      else
        let m = normalizeMatch (settings d) now1 now2 m0 in
        (case (innings1 m, innings2 m) of
           (Some i1, Some i2) \<Rightarrow>
             (case sel of
                Some Innings1 \<Rightarrow>
                  Accepted (m\<lparr>innings1 := Some (i1\<lparr>status := Open, score := None\<rparr>),
                              result := clearResult Innings1 (result m)\<rparr>)
              | Some Innings2 \<Rightarrow>
                  Accepted (m\<lparr>innings2 := Some (i2\<lparr>status := Open, score := None\<rparr>),
                              result := clearResult Innings2 (result m)\<rparr>)
              | None \<Rightarrow>
                  Accepted (m\<lparr>innings1 := Some (i1\<lparr>status := Open, score := None\<rparr>),
                              innings2 := Some (i2\<lparr>status := Pending, score := None,
                                                   lockTime := NoTime\<rparr>),
                              result := None\<rparr>))
         | _ \<Rightarrow> Rejected ServerError None))"

section \<open>Scoreboard aggregator\<close>

text \<open>
  A row of \<^verbatim>\<open>stats\<close>; \<open>predictionCount\<close> is the field \<^verbatim>\<open>predictions\<close> of the source
  (the name is taken by the match field). \<open>scoreRow\<close> is the row with \<^verbatim>\<open>avgDiff\<close> added.
\<close>

record row =
  playerId :: string
  name :: string
  wins :: nat
  exactHits :: nat
  points :: int
  totalDiff :: int
  predictionCount :: nat
  scoredMatches :: nat

record scoreRow = row +
  avgDiff :: "rat option"

definition newRow :: "player \<Rightarrow> row" where
  "newRow p =
     \<lparr>playerId = player_id p, name = player_name p, wins = 0, exactHits = 0, points = 0,
      totalDiff = 0, predictionCount = 0, scoredMatches = 0\<rparr>"

text \<open>
  \<^verbatim>\<open>stats\<close> is a JavaScript \<^verbatim>\<open>Map\<close> from player id to row: the list of its values in
  insertion order. \<open>stats_set\<close> is \<^verbatim>\<open>stats.set(row.playerId, row)\<close>; \<open>stats_update\<close> is
  a mutation of the row that \<^verbatim>\<open>stats.get(pid)\<close> returns.
\<close>

fun stats_set :: "row \<Rightarrow> row list \<Rightarrow> row list" where
  "stats_set r [] = [r]"
| "stats_set r (x # xs) = (if playerId x = playerId r then r # xs else x # stats_set r xs)"

definition stats_update :: "string \<Rightarrow> (row \<Rightarrow> row) \<Rightarrow> row list \<Rightarrow> row list" where
  "stats_update pid f rows = map (\<lambda>r. if playerId r = pid then f r else r) rows"

definition initStats :: "player list \<Rightarrow> row list" where
  "initStats pls = fold (\<lambda>p. stats_set (newRow p)) pls []"

definition predictionsFor :: "inningsKey \<Rightarrow> match \<Rightarrow> predictionMap" where
  "predictionsFor k m =
     (case predictions m of
        None \<Rightarrow> []
      | Some ps \<Rightarrow>
          (case (case k of Innings1 \<Rightarrow> p_innings1 ps | Innings2 \<Rightarrow> p_innings2 ps) of
             None \<Rightarrow> []
           | Some a \<Rightarrow> a))"

definition storedResult :: "inningsKey \<Rightarrow> match \<Rightarrow> inningsResult option" where
  "storedResult k m =
     (case result m of
        None \<Rightarrow> None
      | Some r \<Rightarrow> (case k of Innings1 \<Rightarrow> r_innings1 r | Innings2 \<Rightarrow> r_innings2 r))"

definition recordPrediction :: "int \<Rightarrow> row \<Rightarrow> row" where
  "recordPrediction diff r =
     (let r1 = r\<lparr>totalDiff := totalDiff r + diff,
                 predictionCount := predictionCount r + 1,
                 scoredMatches := scoredMatches r + 1\<rparr>
      in if diff = 0 then r1\<lparr>exactHits := exactHits r1 + 1\<rparr> else r1)"

definition recordWin :: "int \<Rightarrow> int \<Rightarrow> row \<Rightarrow> row" where
  "recordWin bonus diff r =
     (let r1 = r\<lparr>wins := wins r + 1, points := points r + 1\<rparr>
      in if diff = 0 \<and> bonus > 0 then r1\<lparr>points := points r1 + bonus\<rparr> else r1)"

text \<open>
  The first inner loop: over the players, pushing to \<^verbatim>\<open>diffs\<close> (here \<open>dfs\<close>) and
  updating the rows.
\<close>

fun tally ::
  "int \<Rightarrow> predictionMap \<Rightarrow> player list \<Rightarrow> (string \<times> int) list \<times> row list
     \<Rightarrow> (string \<times> int) list \<times> row list" where
  "tally sc preds [] acc = acc"
| "tally sc preds (p # ps) (dfs, stats) =
     (case map_of preds (player_id p) of
        None \<Rightarrow> tally sc preds ps (dfs, stats)
      | Some prediction \<Rightarrow>
          (let diff = \<bar>prediction - sc\<bar> in
           tally sc preds ps
             (dfs @ [(player_id p, diff)],
              stats_update (player_id p) (recordPrediction diff) stats)))"

text \<open>The body of the second inner loop, over \<^verbatim>\<open>diffs\<close>.\<close>

definition award :: "int \<Rightarrow> string list \<Rightarrow> string \<times> int \<Rightarrow> row list \<Rightarrow> row list" where
  "award bonus winnerSet entry stats =
     (if fst entry \<in> set winnerSet
      then stats_update (fst entry) (recordWin bonus (snd entry)) stats
      else stats)"

definition winnersFor :: "data \<Rightarrow> match \<Rightarrow> inningsKey \<Rightarrow> int \<Rightarrow> string list" where
  "winnersFor d m k sc =
     (let res = (case storedResult k m of
                   Some r \<Rightarrow> Some r
                 | None \<Rightarrow> computeInningsResult (Some sc) (predictionsFor k m) (players d))
      in case res of None \<Rightarrow> [] | Some r \<Rightarrow> winners r)"

definition processInnings :: "data \<Rightarrow> match \<Rightarrow> inningsKey \<Rightarrow> row list \<Rightarrow> row list" where
  "processInnings d m k stats =
     (case inningsOf k m of
        None \<Rightarrow> stats
      | Some i \<Rightarrow>
          if status i \<noteq> Scored then stats
          else
            (case score i of
               None \<Rightarrow> stats
             | Some sc \<Rightarrow>
                 (let winnerSet = winnersFor d m k sc;
                      (dfs, stats1) = tally sc (predictionsFor k m) (players d) ([], stats)
                  in fold (award (bonusExact (settings d)) winnerSet) dfs stats1)))"

text \<open>
  \<^verbatim>\<open>Number((totalDiff / predictions).toFixed(2))\<close> on exact rationals: the nearest
  multiple of 1/100, a quotient exactly halfway between two of them going up. The source
  divides and rounds in binary floating point, where such a quotient can go either way
  (\<^verbatim>\<open>(403 / 40).toFixed(2)\<close> is 10.07, \<open>toFixed2 (403 / 40)\<close> is 10.08): the results
  below state about \<open>avgDiff\<close> only what holds for both directions.
\<close>

definition toFixed2 :: "rat \<Rightarrow> rat" where
  "toFixed2 x = of_int (round (x * 100)) / 100"

definition withAvgDiff :: "row \<Rightarrow> scoreRow" where
  "withAvgDiff r =
     \<lparr>playerId = playerId r, name = name r, wins = wins r, exactHits = exactHits r,
      points = points r, totalDiff = totalDiff r, predictionCount = predictionCount r,
      scoredMatches = scoredMatches r,
      avgDiff = (if predictionCount r \<noteq> 0
                 then Some (toFixed2 (of_int (totalDiff r) / of_nat (predictionCount r)))
                 else None)\<rparr>"

text \<open>
  The comparator of the final sort,
  \<^verbatim>\<open>b.points - a.points || a.avgDiff - b.avgDiff || a.name.localeCompare(b.name)\<close>.
  In the subtraction a \<^verbatim>\<open>null\<close> \<^verbatim>\<open>avgDiff\<close> converts to the number 0 (\<open>toNumber\<close>).
  \<^verbatim>\<open>String.prototype.localeCompare\<close> belongs to the JavaScript runtime and is the
  parameter \<open>lc\<close>.
\<close>

definition toNumber :: "rat option \<Rightarrow> rat" where
  "toNumber v = (case v of None \<Rightarrow> 0 | Some x \<Rightarrow> x)"

definition compareRows :: "(string \<Rightarrow> string \<Rightarrow> int) \<Rightarrow> scoreRow \<Rightarrow> scoreRow \<Rightarrow> rat" where
  "compareRows lc a b =
     (let c1 = of_int (points b - points a) in
      if c1 \<noteq> 0 then c1
      else
        let c2 = toNumber (avgDiff a) - toNumber (avgDiff b) in
        if c2 \<noteq> 0 then c2 else of_int (lc (name a) (name b)))"

text \<open>
  \<^verbatim>\<open>Array.prototype.sort\<close> is a stable sort: for a consistent comparator its result is
  the stable sorted permutation, which insertion from the right computes.
\<close>

fun insertBy :: "('a \<Rightarrow> 'a \<Rightarrow> rat) \<Rightarrow> 'a \<Rightarrow> 'a list \<Rightarrow> 'a list" where
  "insertBy cmp x [] = [x]"
| "insertBy cmp x (y # ys) = (if cmp x y \<le> 0 then x # y # ys else y # insertBy cmp x ys)"

definition sortBy :: "('a \<Rightarrow> 'a \<Rightarrow> rat) \<Rightarrow> 'a list \<Rightarrow> 'a list" where
  "sortBy cmp xs = foldr (insertBy cmp) xs []"

definition accumulate :: "data \<Rightarrow> row list" where
  "accumulate d =
     fold (\<lambda>m stats. fold (processInnings d m) [Innings1, Innings2] stats)
       (matches d) (initStats (players d))"

definition buildScoreboard :: "(string \<Rightarrow> string \<Rightarrow> int) \<Rightarrow> data \<Rightarrow> scoreRow list" where
  "buildScoreboard lc d = sortBy (compareRows lc) (map withAvgDiff (accumulate d))"

text \<open>
  A comparator on names for concrete runs: the order of the character codes.
\<close>

definition codeUnitCompare :: "string \<Rightarrow> string \<Rightarrow> int" where
  "codeUnitCompare a b = (if a < b then - 1 else if a = b then 0 else 1)"

section \<open>What a scored innings adds to a row\<close>

text \<open>
  The vocabulary of the accumulation results. A scored event is a match, an innings key
  and the score of that innings, for an innings whose status is scored and whose score is
  present; \<open>scoredInnings\<close> lists the events of a room in the order the aggregator
  visits them. \<open>predictionDiff p e\<close> is the absolute difference of player \<open>p\<close>'s
  prediction in the event, when there is one; \<open>isWinner d p e\<close> says that \<open>p\<close> is in the
  winners of the event's result, stored or recomputed; \<open>pointsFor d p e\<close> is the win point
  and the exact-guess bonus of a predicting winner.
\<close>

type_synonym scoredEvent = "match \<times> inningsKey \<times> int"

definition scoredOne :: "match \<Rightarrow> inningsKey \<Rightarrow> scoredEvent list" where
  "scoredOne m k =
     (case inningsOf k m of
        None \<Rightarrow> []
      | Some i \<Rightarrow>
          if status i = Scored then (case score i of None \<Rightarrow> [] | Some sc \<Rightarrow> [(m, k, sc)])
          else [])"

definition scoredInnings :: "data \<Rightarrow> scoredEvent list" where
  "scoredInnings d = concat (map (\<lambda>m. scoredOne m Innings1 @ scoredOne m Innings2) (matches d))"

definition predictionDiff :: "string \<Rightarrow> scoredEvent \<Rightarrow> int option" where
  "predictionDiff p e =
     (case e of (m, k, sc) \<Rightarrow>
        (case map_of (predictionsFor k m) p of None \<Rightarrow> None | Some v \<Rightarrow> Some \<bar>v - sc\<bar>))"

definition isWinner :: "data \<Rightarrow> string \<Rightarrow> scoredEvent \<Rightarrow> bool" where
  "isWinner d p e = (case e of (m, k, sc) \<Rightarrow> p \<in> set (winnersFor d m k sc))"

definition pointsFor :: "data \<Rightarrow> string \<Rightarrow> scoredEvent \<Rightarrow> int" where
  "pointsFor d p e =
     (case predictionDiff p e of
        None \<Rightarrow> 0
      | Some diff \<Rightarrow>
          if isWinner d p e
          then 1 + (if diff = 0 \<and> 0 < bonusExact (settings d) then bonusExact (settings d) else 0)
          else 0)"

text \<open>
  \<open>addStats d es r\<close> is the row \<open>r\<close> with the events \<open>es\<close> added for its player.
  \<open>tallyEffect\<close>, \<open>awardStep\<close> and \<open>inningsEffect\<close> are what the first inner loop, one
  step of the second inner loop and one innings do to a single row.
\<close>

definition addStats :: "data \<Rightarrow> scoredEvent list \<Rightarrow> row \<Rightarrow> row" where
  "addStats d es r =
     r\<lparr>wins := wins r +
          length (filter (\<lambda>e. predictionDiff (playerId r) e \<noteq> None \<and> isWinner d (playerId r) e) es),
       exactHits := exactHits r + length (filter (\<lambda>e. predictionDiff (playerId r) e = Some 0) es),
       points := points r + sum_list (map (pointsFor d (playerId r)) es),
       totalDiff := totalDiff r +
          sum_list (map (\<lambda>e. case predictionDiff (playerId r) e of None \<Rightarrow> 0 | Some diff \<Rightarrow> diff) es),
       predictionCount := predictionCount r +
          length (filter (\<lambda>e. predictionDiff (playerId r) e \<noteq> None) es),
       scoredMatches := scoredMatches r +
          length (filter (\<lambda>e. predictionDiff (playerId r) e \<noteq> None) es)\<rparr>"

definition tallyEffect :: "int \<Rightarrow> predictionMap \<Rightarrow> string list \<Rightarrow> row \<Rightarrow> row" where
  "tallyEffect sc preds ids r =
     (if playerId r \<in> set ids
      then (case map_of preds (playerId r) of
              None \<Rightarrow> r
            | Some v \<Rightarrow> recordPrediction \<bar>v - sc\<bar> r)
      else r)"

definition awardStep :: "int \<Rightarrow> string list \<Rightarrow> string \<times> int \<Rightarrow> row \<Rightarrow> row" where
  "awardStep bonus winnerSet entry r =
     (if fst entry \<in> set winnerSet \<and> playerId r = fst entry
      then recordWin bonus (snd entry) r else r)"

definition inningsEffect :: "data \<Rightarrow> match \<Rightarrow> inningsKey \<Rightarrow> row \<Rightarrow> row" where
  "inningsEffect d m k r =
     (case inningsOf k m of
        None \<Rightarrow> r
      | Some i \<Rightarrow>
          if status i \<noteq> Scored then r
          else
            (case score i of
               None \<Rightarrow> r
             | Some sc \<Rightarrow>
                 fold (awardStep (bonusExact (settings d)) (winnersFor d m k sc))
                   (entries sc (predictionsFor k m) (players d))
                   (tallyEffect sc (predictionsFor k m) (map player_id (players d)) r)))"

section \<open>Sample room state\<close>

text \<open>
  Matches, players and settings on which the results below are run: a canonical match
  before the toss-decided first innings, a match of the legacy single-innings shape, and
  a match in its second innings.
\<close>

definition sampleMatch :: match where
  "sampleMatch =
     \<lparr>teamA = ''India'', teamB = ''Australia'',
      toss = Some \<lparr>winner = Some ''India'', decision = Some ''field''\<rparr>,
      innings1 = Some \<lparr>status = Open, lockTime = Time 1000, score = None\<rparr>,
      innings2 = Some \<lparr>status = Pending, lockTime = NoTime, score = None\<rparr>,
      predictions = Some \<lparr>p_innings1 = Some [], p_innings2 = Some [], p_other = []\<rparr>,
      result = None, legacy_status = None, legacy_lockTime = NoTime, actualScore = None,
      innings2LockTime = NoTime, innings2Score = None\<rparr>"

definition samplePlayers :: "player list" where
  "samplePlayers =
     [\<lparr>player_id = ''A'', player_name = ''Asha''\<rparr>, \<lparr>player_id = ''B'', player_name = ''Bela''\<rparr>]"

definition sampleSettings :: settings where
  "sampleSettings = \<lparr>bonusExact = 2, minScore = 60, maxScore = 300, lockMinutesBeforeStart = 15\<rparr>"

definition sampleData :: data where
  "sampleData = \<lparr>players = samplePlayers, matches = [sampleMatch], settings = sampleSettings\<rparr>"

definition legacyMatch :: match where
  "legacyMatch =
     \<lparr>teamA = ''India'', teamB = ''Australia'', toss = None,
      innings1 = None, innings2 = None,
      predictions = Some \<lparr>p_innings1 = None, p_innings2 = None, p_other = [(''A'', 150)]\<rparr>,
      result = None, legacy_status = Some Scored, legacy_lockTime = Time 1000,
      actualScore = Some 160, innings2LockTime = Time 5000, innings2Score = None\<rparr>"

definition secondInningsMatch :: match where
  "secondInningsMatch =
     sampleMatch\<lparr>innings1 := Some \<lparr>status = Scored, lockTime = Time 1000, score = Some 150\<rparr>,
                 innings2 := Some \<lparr>status = Open, lockTime = Time 1500, score = None\<rparr>,
                 result := Some \<lparr>r_innings1 = Some \<lparr>winners = [''A''], closestDiff = Some 3\<rparr>,
                                r_innings2 = None\<rparr>\<rparr>"

text \<open>
  A room with five players and a match with both innings scored, the result of innings 1
  stored and the result of innings 2 left to be recomputed; and a room whose stored
  result names a winner who has no prediction.
\<close>

definition leaguePlayers :: "player list" where
  "leaguePlayers =
     [\<lparr>player_id = ''A'', player_name = ''Asha''\<rparr>, \<lparr>player_id = ''B'', player_name = ''Bela''\<rparr>,
      \<lparr>player_id = ''C'', player_name = ''Chitra''\<rparr>, \<lparr>player_id = ''E'', player_name = ''Esha''\<rparr>,
      \<lparr>player_id = ''D'', player_name = ''Dev''\<rparr>]"

definition leagueMatch :: match where
  "leagueMatch =
     sampleMatch\<lparr>innings1 := Some \<lparr>status = Scored, lockTime = Time 1000, score = Some 100\<rparr>,
                 innings2 := Some \<lparr>status = Scored, lockTime = Time 1500, score = Some 140\<rparr>,
                 predictions := Some \<lparr>p_innings1 = Some [(''A'', 95), (''B'', 105), (''E'', 130)],
                                      p_innings2 = Some [(''A'', 150), (''B'', 145), (''C'', 140)],
                                      p_other = []\<rparr>,
                 result := Some \<lparr>r_innings1 = Some \<lparr>winners = [''A'', ''B''], closestDiff = Some 5\<rparr>,
                                r_innings2 = None\<rparr>\<rparr>"

definition leagueData :: data where
  "leagueData = \<lparr>players = leaguePlayers, matches = [leagueMatch, sampleMatch], settings = sampleSettings\<rparr>"

definition staleMatch :: match where
  "staleMatch =
     sampleMatch\<lparr>innings1 := Some \<lparr>status = Scored, lockTime = Time 1000, score = Some 100\<rparr>,
                 result := Some \<lparr>r_innings1 = Some \<lparr>winners = [''A''], closestDiff = Some 0\<rparr>,
                                r_innings2 = None\<rparr>\<rparr>"

definition staleData :: data where
  "staleData = \<lparr>players = samplePlayers, matches = [staleMatch], settings = sampleSettings\<rparr>"

section \<open>Result calculator: nearest guess and shared wins\<close>

lemma entries_set:
  "set (entries a preds ps) =
     {(player_id p, \<bar>v - a\<bar>) | p v. p \<in> set ps \<and> map_of preds (player_id p) = Some v}"
  by (induction ps) (auto split: option.splits)

lemma entries_Nil_iff:
  "entries a preds ps = [] \<longleftrightarrow> (\<forall>p\<in>set ps. map_of preds (player_id p) = None)"
  by (induction ps) (auto split: option.splits)

text \<open>
  Claim C1. \<^verbatim>\<open>computeInningsResult\<close> returns \<^verbatim>\<open>null\<close> when the actual score is absent.
  Otherwise, when no listed player has a recorded prediction, it returns no winners and a
  \<^verbatim>\<open>null\<close> closest difference. Otherwise the closest difference \<open>d\<close> is the least
  absolute difference between a listed player's prediction and the actual score (it is a
  lower bound and some player attains it), and the winners are exactly the listed players
  whose prediction attains \<open>d\<close>, ties included.
\<close>

theorem computeInningsResult_spec:
  "computeInningsResult None preds pls = None \<and>
   ((\<forall>p\<in>set pls. map_of preds (player_id p) = None) \<longrightarrow>
      computeInningsResult (Some a) preds pls = Some \<lparr>winners = [], closestDiff = None\<rparr>) \<and>
   ((\<exists>p\<in>set pls. map_of preds (player_id p) \<noteq> None) \<longrightarrow>
      (\<exists>d ws. computeInningsResult (Some a) preds pls
                 = Some \<lparr>winners = ws, closestDiff = Some d\<rparr> \<and>
         (\<forall>p\<in>set pls. \<forall>v. map_of preds (player_id p) = Some v \<longrightarrow> d \<le> \<bar>v - a\<bar>) \<and>
         (\<exists>p\<in>set pls. \<exists>v. map_of preds (player_id p) = Some v \<and> \<bar>v - a\<bar> = d) \<and>
         (\<forall>q. q \<in> set ws \<longleftrightarrow>
              (\<exists>p\<in>set pls. player_id p = q \<and>
                 (\<exists>v. map_of preds q = Some v \<and> \<bar>v - a\<bar> = d)))))"
proof (intro conjI impI)
  show "computeInningsResult None preds pls = None"
    by (simp add: computeInningsResult_def)
next
  assume "\<forall>p\<in>set pls. map_of preds (player_id p) = None"
  then have "entries a preds pls = []" by (simp add: entries_Nil_iff)
  then show "computeInningsResult (Some a) preds pls = Some \<lparr>winners = [], closestDiff = None\<rparr>"
    by (simp add: computeInningsResult_def)
next
  assume ex: "\<exists>p\<in>set pls. map_of preds (player_id p) \<noteq> None"
  define es where "es = entries a preds pls"
  define d where "d = min_list (map snd es)"
  define ws where "ws = map fst (filter (\<lambda>e. snd e = d) es)"
  from ex have ne: "es \<noteq> []" by (simp add: es_def entries_Nil_iff)
  then have dmin: "d = Min (set (map snd es))" by (simp add: d_def min_list_Min)
  have res: "computeInningsResult (Some a) preds pls = Some \<lparr>winners = ws, closestDiff = Some d\<rparr>"
    using ne by (simp add: computeInningsResult_def Let_def es_def d_def ws_def)
  have sset: "set es = {(player_id p, \<bar>v - a\<bar>) | p v. p \<in> set pls \<and> map_of preds (player_id p) = Some v}"
    by (simp add: es_def entries_set)
  have lower: "\<forall>p\<in>set pls. \<forall>v. map_of preds (player_id p) = Some v \<longrightarrow> d \<le> \<bar>v - a\<bar>"
  proof (intro ballI allI impI)
    fix p v assume "p \<in> set pls" "map_of preds (player_id p) = Some v"
    then have "(player_id p, \<bar>v - a\<bar>) \<in> set es" by (auto simp: sset)
    then have "\<bar>v - a\<bar> \<in> set (map snd es)" by force
    then show "d \<le> \<bar>v - a\<bar>" by (simp add: dmin)
  qed
  have "d \<in> set (map snd es)" using ne by (simp add: dmin Min_in del: set_map)
  then obtain e where "e \<in> set es" "snd e = d" by auto
  then have attained: "\<exists>p\<in>set pls. \<exists>v. map_of preds (player_id p) = Some v \<and> \<bar>v - a\<bar> = d"
    by (fastforce simp: sset)
  have wset: "\<forall>q. q \<in> set ws \<longleftrightarrow>
              (\<exists>p\<in>set pls. player_id p = q \<and>
                 (\<exists>v. map_of preds q = Some v \<and> \<bar>v - a\<bar> = d))"
    by (auto simp: ws_def sset) force
  show "\<exists>d ws. computeInningsResult (Some a) preds pls
                 = Some \<lparr>winners = ws, closestDiff = Some d\<rparr> \<and>
         (\<forall>p\<in>set pls. \<forall>v. map_of preds (player_id p) = Some v \<longrightarrow> d \<le> \<bar>v - a\<bar>) \<and>
         (\<exists>p\<in>set pls. \<exists>v. map_of preds (player_id p) = Some v \<and> \<bar>v - a\<bar> = d) \<and>
         (\<forall>q. q \<in> set ws \<longleftrightarrow>
              (\<exists>p\<in>set pls. player_id p = q \<and>
                 (\<exists>v. map_of preds q = Some v \<and> \<bar>v - a\<bar> = d)))"
    using res lower attained wset by blast
qed

theorem computeInningsResult_spec_witness:
  "(\<exists>p\<in>set samplePlayers. map_of [(''A'', 95), (''B'', 105)] (player_id p) \<noteq> None) \<and>
   (\<exists>ws. computeInningsResult (Some 100) [(''A'', 95), (''B'', 105)] samplePlayers
            = Some \<lparr>winners = ws, closestDiff = Some 5\<rparr> \<and> set ws = {''A'', ''B''}) \<and>
   computeInningsResult (Some 100) [] samplePlayers = Some \<lparr>winners = [], closestDiff = None\<rparr>"
proof -
  have h: "\<exists>p\<in>set samplePlayers. map_of [(''A'', 95), (''B'', 105)] (player_id p) \<noteq> None"
    by (simp add: samplePlayers_def)
  have e: "\<forall>p\<in>set samplePlayers. map_of [] (player_id p) = (None :: int option)"
    by simp
  from computeInningsResult_spec [of "[(''A'', 95), (''B'', 105)]" samplePlayers 100] h
  obtain d ws where
    r: "computeInningsResult (Some 100) [(''A'', 95), (''B'', 105)] samplePlayers
          = Some \<lparr>winners = ws, closestDiff = Some d\<rparr>"
    and lo: "\<forall>p\<in>set samplePlayers. \<forall>v. map_of [(''A'', 95), (''B'', 105)] (player_id p) = Some v \<longrightarrow> d \<le> \<bar>v - 100\<bar>"
    and at: "\<exists>p\<in>set samplePlayers. \<exists>v. map_of [(''A'', 95), (''B'', 105)] (player_id p) = Some v \<and> \<bar>v - 100\<bar> = d"
    and ws: "\<forall>q. q \<in> set ws \<longleftrightarrow>
              (\<exists>p\<in>set samplePlayers. player_id p = q \<and>
                 (\<exists>v. map_of [(''A'', 95), (''B'', 105)] q = Some v \<and> \<bar>v - 100\<bar> = d))"
    by blast
  from at have d5: "d = 5" by (auto simp: samplePlayers_def)
  from ws d5 have "set ws = {''A'', ''B''}"
    by (auto simp: samplePlayers_def split: if_splits)
  with r d5 h e computeInningsResult_spec [of "[]" samplePlayers 100] show ?thesis by blast
qed

section \<open>Toss resolver\<close>

text \<open>
  Claim C6. \<^verbatim>\<open>getBattingTeams\<close> is absent when the toss is unset or its winner or its
  decision is unset. With decision "bat" the toss winner bats in innings 1 and the other
  of team A and team B in innings 2; with decision "field" the winner bats in innings 2
  and the other team in innings 1. The function is a value of the match alone: it returns
  no new match, so the match is as it was.
\<close>

theorem getBattingTeams_spec:
  "(toss m = None \<longrightarrow> getBattingTeams m = None) \<and>
   (\<forall>t. toss m = Some t \<and> (falsy (winner t) \<or> falsy (decision t)) \<longrightarrow> getBattingTeams m = None) \<and>
   (\<forall>t w. toss m = Some t \<and> winner t = Some w \<and> w \<noteq> [] \<and> decision t = Some ''bat'' \<longrightarrow>
      getBattingTeams m =
        Some \<lparr>bat_innings1 = w, bat_innings2 = (if w = teamA m then teamB m else teamA m)\<rparr>) \<and>
   (\<forall>t w. toss m = Some t \<and> winner t = Some w \<and> w \<noteq> [] \<and> decision t = Some ''field'' \<longrightarrow>
      getBattingTeams m =
        Some \<lparr>bat_innings1 = (if w = teamA m then teamB m else teamA m), bat_innings2 = w\<rparr>)"
  by (auto simp: getBattingTeams_def falsy_def Let_def split: option.splits)

theorem getBattingTeams_spec_witness:
  "toss sampleMatch = Some \<lparr>winner = Some ''India'', decision = Some ''field''\<rparr> \<and>
   getBattingTeams sampleMatch = Some \<lparr>bat_innings1 = ''Australia'', bat_innings2 = ''India''\<rparr> \<and>
   getBattingTeams (sampleMatch\<lparr>toss := Some \<lparr>winner = Some ''India'', decision = Some ''bat''\<rparr>\<rparr>)
     = Some \<lparr>bat_innings1 = ''India'', bat_innings2 = ''Australia''\<rparr> \<and>
   getBattingTeams (sampleMatch\<lparr>toss := Some \<lparr>winner = Some ''India'', decision = None\<rparr>\<rparr>) = None \<and>
   getBattingTeams (sampleMatch\<lparr>toss := None\<rparr>) = None"
  using getBattingTeams_spec [of sampleMatch]
    getBattingTeams_spec [of "sampleMatch\<lparr>toss := Some \<lparr>winner = Some ''India'', decision = Some ''bat''\<rparr>\<rparr>"]
    getBattingTeams_spec [of "sampleMatch\<lparr>toss := Some \<lparr>winner = Some ''India'', decision = None\<rparr>\<rparr>"]
    getBattingTeams_spec [of "sampleMatch\<lparr>toss := None\<rparr>"]
  by (simp add: sampleMatch_def falsy_def)

section \<open>Match normalizer: invariants and idempotence\<close>

lemma effectiveInnings_simps [simp]:
  "effectiveInnings Innings1 m = (case innings1 m of None \<Rightarrow> legacyInnings1 m | Some i \<Rightarrow> i)"
  "effectiveInnings Innings2 m = (case innings2 m of None \<Rightarrow> legacyInnings2 m | Some i \<Rightarrow> i)"
  by (simp_all add: effectiveInnings_def)

lemma normalizeInningsStatus_status:
  "status (normalizeInningsStatus now i) =
     (if status i = Open \<and> (\<exists>t. lockTime i = Time t \<and> t \<le> now) then Locked else status i)"
  by (cases "lockTime i") (auto simp: normalizeInningsStatus_def isInningsLocked_def)

lemma normalizeInningsStatus_eq:
  "normalizeInningsStatus now i =
     i\<lparr>status := (if status i = Open \<and> (\<exists>t. lockTime i = Time t \<and> t \<le> now)
                    then Locked else status i)\<rparr>"
  by (cases "lockTime i") (auto simp: normalizeInningsStatus_def isInningsLocked_def)

lemma normalizeInningsStatus_frame [simp]:
  "lockTime (normalizeInningsStatus now i) = lockTime i"
  "score (normalizeInningsStatus now i) = score i"
  by (simp_all add: normalizeInningsStatus_def)

lemma normalizeInningsStatus_idem [simp]:
  "normalizeInningsStatus now (normalizeInningsStatus now i) = normalizeInningsStatus now i"
  by (simp add: normalizeInningsStatus_def isInningsLocked_def)

lemma promoteInnings2_frame [simp]:
  "lockTime (promoteInnings2 st i1 i2) = lockTime i2"
  "score (promoteInnings2 st i1 i2) = score i2"
  by (auto simp: promoteInnings2_def Let_def)

lemma promoteInnings2_status:
  "status (promoteInnings2 st i1 i2) =
     (if status i1 = Scored \<and> status i2 = Pending then Open else status i2)"
  by (auto simp: promoteInnings2_def Let_def)

lemma promoteInnings2_noop:
  "\<not> (status i1 = Scored \<and> status i2 = Pending) \<Longrightarrow> promoteInnings2 st i1 i2 = i2"
  by (auto simp: promoteInnings2_def)

lemma normalizePredictions_shape:
  "\<exists>a b. p_innings1 (normalizePredictions p) = Some a \<and> p_innings2 (normalizePredictions p) = Some b"
  by (simp add: normalizePredictions_def Let_def)

lemma normalizePredictions_canonical:
  "p_innings1 ps = Some a \<Longrightarrow> p_innings2 ps = Some b \<Longrightarrow> normalizePredictions (Some ps) = ps"
  by (simp add: normalizePredictions_def Let_def)

lemma normalizePredictions_idem:
  "normalizePredictions (Some (normalizePredictions p)) = normalizePredictions p"
  using normalizePredictions_shape [of p] normalizePredictions_canonical by blast

lemma normalizeMatch_fields [simp]:
  "innings1 (normalizeMatch st n1 n2 m) =
     Some (normalizeInningsStatus n1 (case innings1 m of None \<Rightarrow> legacyInnings1 m | Some i \<Rightarrow> i))"
  "innings2 (normalizeMatch st n1 n2 m) =
     Some (normalizeInningsStatus n2
             (promoteInnings2 st (case innings1 m of None \<Rightarrow> legacyInnings1 m | Some i \<Rightarrow> i)
                (case innings2 m of None \<Rightarrow> legacyInnings2 m | Some i \<Rightarrow> i)))"
  "predictions (normalizeMatch st n1 n2 m) = Some (normalizePredictions (predictions m))"
  "toss (normalizeMatch st n1 n2 m) = toss m"
  "teamA (normalizeMatch st n1 n2 m) = teamA m"
  "teamB (normalizeMatch st n1 n2 m) = teamB m"
  "result (normalizeMatch st n1 n2 m) = result m"
  by (simp_all add: normalizeMatch_def Let_def)

text \<open>
  Claim C7. \<^verbatim>\<open>normalizeMatch\<close> is defined on every match record (the model has no error
  branch, as the source has no statement that can throw on a match object), and after it
  the match has both innings and both predictions mappings. An innings 2 that was pending
  while innings 1 was scored has been promoted to open, and then, like every open innings
  whose lock time is not after the clock reading, advanced to locked: no normalized
  innings is open with a lock time that has passed, and no normalized match has a scored
  innings 1 with a pending innings 2. The innings before normalization are the stored
  ones, or the ones synthesized from the legacy fields.
\<close>

theorem normalizeMatch_invariants:
  "let m' = normalizeMatch st n1 n2 m;
       j1 = effectiveInnings Innings1 m;
       j2 = effectiveInnings Innings2 m
   in \<exists>i1 i2 ps a b.
        innings1 m' = Some i1 \<and> innings2 m' = Some i2 \<and>
        predictions m' = Some ps \<and> p_innings1 ps = Some a \<and> p_innings2 ps = Some b \<and>
        (status j1 = Scored \<and> status j2 = Pending \<longrightarrow>
           status i2 = (if \<exists>t. lockTime j2 = Time t \<and> t \<le> n2 then Locked else Open)) \<and>
        (status j1 = Open \<and> (\<exists>t. lockTime j1 = Time t \<and> t \<le> n1) \<longrightarrow> status i1 = Locked) \<and>
        (status j2 = Open \<and> (\<exists>t. lockTime j2 = Time t \<and> t \<le> n2) \<longrightarrow> status i2 = Locked) \<and>
        \<not> (status i1 = Open \<and> (\<exists>t. lockTime i1 = Time t \<and> t \<le> n1)) \<and>
        \<not> (status i2 = Open \<and> (\<exists>t. lockTime i2 = Time t \<and> t \<le> n2)) \<and>
        \<not> (status i1 = Scored \<and> status i2 = Pending)"
  using normalizePredictions_shape [of "predictions m"]
  by (auto simp: Let_def normalizeInningsStatus_status promoteInnings2_status)

theorem normalizeMatch_invariants_witness:
  "(\<exists>i2 ps. innings2 (normalizeMatch sampleSettings 2000 2000 legacyMatch) = Some i2 \<and> status i2 = Open \<and>
      predictions (normalizeMatch sampleSettings 2000 2000 legacyMatch) = Some ps \<and> p_innings1 ps \<noteq> None) \<and>
   (\<exists>i2. innings2 (normalizeMatch sampleSettings 2000 6000 legacyMatch) = Some i2 \<and> status i2 = Locked) \<and>
   (\<exists>i1. innings1 (normalizeMatch sampleSettings 2000 2000 sampleMatch) = Some i1 \<and> status i1 = Locked)"
  using normalizeMatch_invariants [of sampleSettings 2000 2000 legacyMatch]
    normalizeMatch_invariants [of sampleSettings 2000 6000 legacyMatch]
    normalizeMatch_invariants [of sampleSettings 2000 2000 sampleMatch]
  unfolding Let_def
  by (simp add: legacyMatch_def sampleMatch_def legacyInnings1_def legacyInnings2_def)

text \<open>
  Claim C8. For fixed clock readings \<^verbatim>\<open>normalizeMatch\<close> is idempotent. On a canonical
  match (both innings and both predictions mappings present, innings 2 not pending while
  innings 1 is scored) it changes nothing but the status of an open innings whose lock
  time has passed, which becomes locked; when there is no such innings the match is
  unchanged.
\<close>

theorem normalizeMatch_idempotent:
  "normalizeMatch st n1 n2 (normalizeMatch st n1 n2 m) = normalizeMatch st n1 n2 m \<and>
   (\<forall>i1 i2 ps a b.
      innings1 m = Some i1 \<and> innings2 m = Some i2 \<and> predictions m = Some ps \<and>
      p_innings1 ps = Some a \<and> p_innings2 ps = Some b \<and>
      \<not> (status i1 = Scored \<and> status i2 = Pending) \<longrightarrow>
      normalizeMatch st n1 n2 m =
        m\<lparr>innings1 := Some (i1\<lparr>status := (if status i1 = Open \<and> (\<exists>t. lockTime i1 = Time t \<and> t \<le> n1)
                                           then Locked else status i1)\<rparr>),
          innings2 := Some (i2\<lparr>status := (if status i2 = Open \<and> (\<exists>t. lockTime i2 = Time t \<and> t \<le> n2)
                                           then Locked else status i2)\<rparr>)\<rparr> \<and>
      (\<not> (status i1 = Open \<and> (\<exists>t. lockTime i1 = Time t \<and> t \<le> n1)) \<and>
       \<not> (status i2 = Open \<and> (\<exists>t. lockTime i2 = Time t \<and> t \<le> n2)) \<longrightarrow>
       normalizeMatch st n1 n2 m = m))"
proof (intro conjI allI impI)
  let ?j1 = "case innings1 m of None \<Rightarrow> legacyInnings1 m | Some i \<Rightarrow> i"
  let ?j2 = "case innings2 m of None \<Rightarrow> legacyInnings2 m | Some i \<Rightarrow> i"
  have st: "\<not> (status (normalizeInningsStatus n1 ?j1) = Scored \<and>
               status (normalizeInningsStatus n2 (promoteInnings2 st ?j1 ?j2)) = Pending)"
    by (auto simp: normalizeInningsStatus_status promoteInnings2_status)
  show "normalizeMatch st n1 n2 (normalizeMatch st n1 n2 m) = normalizeMatch st n1 n2 m"
    unfolding normalizeMatch_def [of st n1 n2 "normalizeMatch st n1 n2 m"]
    by (simp add: Let_def normalizePredictions_idem promoteInnings2_noop [OF st])
next
  fix i1 i2 ps a b
  assume h: "innings1 m = Some i1 \<and> innings2 m = Some i2 \<and> predictions m = Some ps \<and>
      p_innings1 ps = Some a \<and> p_innings2 ps = Some b \<and>
      \<not> (status i1 = Scored \<and> status i2 = Pending)"
  then have p: "promoteInnings2 st i1 i2 = i2" by (simp add: promoteInnings2_noop)
  from h have q: "normalizePredictions (Some ps) = ps" by (simp add: normalizePredictions_canonical)
  show eq: "normalizeMatch st n1 n2 m =
        m\<lparr>innings1 := Some (i1\<lparr>status := (if status i1 = Open \<and> (\<exists>t. lockTime i1 = Time t \<and> t \<le> n1)
                                           then Locked else status i1)\<rparr>),
          innings2 := Some (i2\<lparr>status := (if status i2 = Open \<and> (\<exists>t. lockTime i2 = Time t \<and> t \<le> n2)
                                           then Locked else status i2)\<rparr>)\<rparr>"
    using h by (simp add: normalizeMatch_def Let_def p q normalizeInningsStatus_eq [symmetric])
  assume "\<not> (status i1 = Open \<and> (\<exists>t. lockTime i1 = Time t \<and> t \<le> n1)) \<and>
       \<not> (status i2 = Open \<and> (\<exists>t. lockTime i2 = Time t \<and> t \<le> n2))"
  with eq h show "normalizeMatch st n1 n2 m = m" by simp
qed

theorem normalizeMatch_idempotent_witness:
  "normalizeMatch sampleSettings 2000 2000 sampleMatch =
     sampleMatch\<lparr>innings1 := Some \<lparr>status = Locked, lockTime = Time 1000, score = None\<rparr>\<rparr> \<and>
   normalizeMatch sampleSettings 500 500 sampleMatch = sampleMatch"
  using normalizeMatch_idempotent [of sampleSettings 2000 2000 sampleMatch]
    normalizeMatch_idempotent [of sampleSettings 500 500 sampleMatch]
  by (simp add: sampleMatch_def)


section \<open>Prediction ledger\<close>

lemma getBattingTeams_normalizeMatch [simp]:
  "getBattingTeams (normalizeMatch st n1 n2 m) = getBattingTeams m"
  by (simp add: getBattingTeams_def Let_def split: option.splits)

lemma isInningsLocked_open:
  "status i = Open \<Longrightarrow> isInningsLocked now (Some i) \<longleftrightarrow> (\<exists>t. lockTime i = Time t \<and> t \<le> now)"
  by (cases "lockTime i") (auto simp: isInningsLocked_def)

lemma find_None_image: "find (\<lambda>p. player_id p = pid) ps = None \<longleftrightarrow> pid \<notin> player_id ` set ps"
  by (auto simp: find_None_iff)

lemma inningsOf_normalizeMatch_Some: "\<exists>i. inningsOf k (normalizeMatch st n1 n2 m) = Some i"
  by (cases k) (simp_all add: inningsOf_def)

lemma storePrediction_normalized:
  "\<exists>m'. storePrediction k pid v (normalizeMatch st n1 n2 m) = Some m' \<and>
        predictionsFor k m' = AList.update pid v (predictionsFor k (normalizeMatch st n1 n2 m)) \<and>
        (\<forall>k'. k' \<noteq> k \<longrightarrow> predictionsFor k' m' = predictionsFor k' (normalizeMatch st n1 n2 m)) \<and>
        m' = (normalizeMatch st n1 n2 m)\<lparr>predictions := predictions m'\<rparr>"
proof -
  obtain a b where ab: "p_innings1 (normalizePredictions (predictions m)) = Some a"
    "p_innings2 (normalizePredictions (predictions m)) = Some b"
    using normalizePredictions_shape by blast
  show ?thesis
  proof (cases k)
    case Innings1
    then show ?thesis using ab
      by (auto simp: storePrediction_def predictionsFor_def split: inningsKey.splits)
  next
    case Innings2
    then show ?thesis using ab
      by (auto simp: storePrediction_def predictionsFor_def split: inningsKey.splits)
  qed
qed

lemma predict_toss_unset:
  "getBattingTeams m0 = None \<Longrightarrow> predict d n1 n2 n3 m0 k pid sc = Rejected TossNotSet None"
  by (simp add: predict_def Let_def)

lemma predict_not_open:
  assumes "getBattingTeams m0 \<noteq> None"
    and "inningsOf k (normalizeMatch (settings d) n1 n2 m0) = Some i"
    and "status i \<noteq> Open"
  shows "predict d n1 n2 n3 m0 k pid sc = Rejected InningsNotOpen None"
  using assms by (auto simp: predict_def Let_def)

lemma predict_time_locked:
  assumes "getBattingTeams m0 \<noteq> None"
    and "inningsOf k (normalizeMatch (settings d) n1 n2 m0) = Some i"
    and "status i = Open"
    and "\<exists>t. lockTime i = Time t \<and> t \<le> n3"
  shows "predict d n1 n2 n3 m0 k pid sc =
           Rejected PredictionsLocked (Some (normalizeMatch (settings d) n1 n2 m0))"
proof -
  from assms(3,4) have "isInningsLocked n3 (Some i)" by (simp add: isInningsLocked_open)
  with assms(1,2,3) show ?thesis by (auto simp: predict_def Let_def)
qed

lemma predict_open:
  assumes "getBattingTeams m0 \<noteq> None"
    and "inningsOf k (normalizeMatch (settings d) n1 n2 m0) = Some i"
    and "status i = Open"
    and "\<not> (\<exists>t. lockTime i = Time t \<and> t \<le> n3)"
  shows "predict d n1 n2 n3 m0 k pid sc =
      (if pid \<notin> player_id ` set (players d) then Rejected UnknownPlayer None
       else (case sc of
           NotFinite \<Rightarrow> Rejected ScoreOutOfRange None
         | Finite x \<Rightarrow>
             if x < minScore (settings d) \<or> x > maxScore (settings d)
             then Rejected ScoreOutOfRange None
             else
               (case storePrediction k pid (round x) (normalizeMatch (settings d) n1 n2 m0) of
                  None \<Rightarrow> Rejected ServerError None
                | Some m' \<Rightarrow> Accepted m')))"
proof -
  from assms(3,4) have "\<not> isInningsLocked n3 (Some i)" by (simp add: isInningsLocked_open)
  with assms(1,2,3) show ?thesis
    by (auto simp: predict_def Let_def find_None_image [symmetric])
qed

lemma inningsOf_normalizeMatch_effective:
  "\<exists>i'. inningsOf k (normalizeMatch st n1 n2 m0) = Some i' \<and>
      lockTime i' = lockTime (effectiveInnings k m0) \<and>
      score i' = score (effectiveInnings k m0) \<and>
      (status (effectiveInnings k m0) = Locked \<or> status (effectiveInnings k m0) = Scored
         \<longrightarrow> status i' = status (effectiveInnings k m0)) \<and>
      (status (effectiveInnings k m0) = Open \<longrightarrow> status i' = Open \<or> status i' = Locked)"
  by (cases k) (auto simp: inningsOf_def normalizeInningsStatus_status promoteInnings2_status)

lemma sample_toss: "getBattingTeams sampleMatch \<noteq> None"
  by (simp add: getBattingTeams_def sampleMatch_def)

lemma sample_normalized_early:
  "n1 < 1000 \<Longrightarrow> normalizeMatch (settings sampleData) n1 n2 sampleMatch = sampleMatch"
  by (simp add: normalizeMatch_def sampleMatch_def Let_def normalizeInningsStatus_def
        isInningsLocked_def normalizePredictions_def promoteInnings2_def)

lemma sample_innings1:
  "inningsOf Innings1 sampleMatch = Some \<lparr>status = Open, lockTime = Time 1000, score = None\<rparr>"
  by (simp add: inningsOf_def sampleMatch_def)

lemma sample_players: "player_id ` set (players sampleData) = {''A'', ''B''}"
  by (simp add: sampleData_def samplePlayers_def)

lemma sample_bounds: "minScore (settings sampleData) = 60" "maxScore (settings sampleData) = 300"
  by (simp_all add: sampleData_def sampleSettings_def)

lemma sample_store:
  "storePrediction Innings1 ''A'' v sampleMatch =
     Some (sampleMatch\<lparr>predictions :=
       Some \<lparr>p_innings1 = Some [(''A'', v)], p_innings2 = Some [], p_other = []\<rparr>\<rparr>)"
  by (simp add: storePrediction_def sampleMatch_def)

text \<open>
  Claim C4, as the code has it. The checks of the predict handler run in this order, the
  first failure deciding the response: the batting order is resolvable from the toss
  (else \<open>TossNotSet\<close>); the target innings of the normalized match is open and its lock
  time, read again at the later clock reading \<open>n3\<close>, has not passed (else one of the two
  403 responses \<open>InningsNotOpen\<close> and \<open>PredictionsLocked\<close>); the player id is one of the
  room's players (else \<open>UnknownPlayer\<close>); the score is a finite number within
  \<open>[minScore, maxScore]\<close>, integer or not (else \<open>ScoreOutOfRange\<close>). On success the score
  rounded to the nearest integer is stored for that player and innings, replacing an
  earlier value, and nothing else of the normalized match changes.
\<close>

theorem predict_checks:
  "let m = normalizeMatch (settings d) n1 n2 m0;
       tossOk = (getBattingTeams m0 \<noteq> None);
       isOpen = (\<exists>i. inningsOf k m = Some i \<and> status i = Open \<and>
                     \<not> (\<exists>t. lockTime i = Time t \<and> t \<le> n3));
       known = (pid \<in> player_id ` set (players d));
       inRange = (\<exists>x. sc = Finite x \<and> minScore (settings d) \<le> x \<and> x \<le> maxScore (settings d))
   in (\<not> tossOk \<longrightarrow> predict d n1 n2 n3 m0 k pid sc = Rejected TossNotSet None) \<and>
      (tossOk \<and> \<not> isOpen \<longrightarrow>
         predict d n1 n2 n3 m0 k pid sc = Rejected InningsNotOpen None \<or>
         predict d n1 n2 n3 m0 k pid sc = Rejected PredictionsLocked (Some m)) \<and>
      (tossOk \<and> isOpen \<and> \<not> known \<longrightarrow>
         predict d n1 n2 n3 m0 k pid sc = Rejected UnknownPlayer None) \<and>
      (tossOk \<and> isOpen \<and> known \<and> \<not> inRange \<longrightarrow>
         predict d n1 n2 n3 m0 k pid sc = Rejected ScoreOutOfRange None) \<and>
      (tossOk \<and> isOpen \<and> known \<and> inRange \<longrightarrow>
         (\<exists>x m'. sc = Finite x \<and> predict d n1 n2 n3 m0 k pid sc = Accepted m' \<and>
            predictionsFor k m' = AList.update pid (round x) (predictionsFor k m) \<and>
            map_of (predictionsFor k m') pid = Some (round x) \<and>
            (\<forall>q. q \<noteq> pid \<longrightarrow> map_of (predictionsFor k m') q = map_of (predictionsFor k m) q) \<and>
            (\<forall>k'. k' \<noteq> k \<longrightarrow> predictionsFor k' m' = predictionsFor k' m) \<and>
            m' = m\<lparr>predictions := predictions m'\<rparr>))"
proof -
  define m where "m = normalizeMatch (settings d) n1 n2 m0"
  obtain i where i: "inningsOf k m = Some i"
    using inningsOf_normalizeMatch_Some m_def by blast
  note i' = i [unfolded m_def]
  have c2: "predict d n1 n2 n3 m0 k pid sc = Rejected InningsNotOpen None \<or>
            predict d n1 n2 n3 m0 k pid sc = Rejected PredictionsLocked (Some m)"
    if "getBattingTeams m0 \<noteq> None" "\<not> (status i = Open \<and> \<not> (\<exists>t. lockTime i = Time t \<and> t \<le> n3))"
    using predict_not_open [OF that(1) i'] predict_time_locked [OF that(1) i'] that(2)
    unfolding m_def by blast
  have c3: "predict d n1 n2 n3 m0 k pid sc = Rejected UnknownPlayer None"
    if "getBattingTeams m0 \<noteq> None" "status i = Open" "\<not> (\<exists>t. lockTime i = Time t \<and> t \<le> n3)"
       "pid \<notin> player_id ` set (players d)"
    using predict_open [OF that(1) i' that(2,3)] that(4) by simp
  have c4: "predict d n1 n2 n3 m0 k pid sc = Rejected ScoreOutOfRange None"
    if "getBattingTeams m0 \<noteq> None" "status i = Open" "\<not> (\<exists>t. lockTime i = Time t \<and> t \<le> n3)"
       "pid \<in> player_id ` set (players d)"
       "\<not> (\<exists>x. sc = Finite x \<and> minScore (settings d) \<le> x \<and> x \<le> maxScore (settings d))"
    using predict_open [OF that(1) i' that(2,3), of pid sc] that(4,5) by (cases sc) auto
  have c5: "\<exists>x m'. sc = Finite x \<and> predict d n1 n2 n3 m0 k pid sc = Accepted m' \<and>
            predictionsFor k m' = AList.update pid (round x) (predictionsFor k m) \<and>
            map_of (predictionsFor k m') pid = Some (round x) \<and>
            (\<forall>q. q \<noteq> pid \<longrightarrow> map_of (predictionsFor k m') q = map_of (predictionsFor k m) q) \<and>
            (\<forall>k'. k' \<noteq> k \<longrightarrow> predictionsFor k' m' = predictionsFor k' m) \<and>
            m' = m\<lparr>predictions := predictions m'\<rparr>"
    if "getBattingTeams m0 \<noteq> None" "status i = Open" "\<not> (\<exists>t. lockTime i = Time t \<and> t \<le> n3)"
       "pid \<in> player_id ` set (players d)"
       "\<exists>x. sc = Finite x \<and> minScore (settings d) \<le> x \<and> x \<le> maxScore (settings d)"
  proof -
    from that(5) obtain x where x: "sc = Finite x" "minScore (settings d) \<le> x" "x \<le> maxScore (settings d)"
      by blast
    obtain m' where m': "storePrediction k pid (round x) m = Some m'"
        "predictionsFor k m' = AList.update pid (round x) (predictionsFor k m)"
        "\<forall>k'. k' \<noteq> k \<longrightarrow> predictionsFor k' m' = predictionsFor k' m"
        "m' = m\<lparr>predictions := predictions m'\<rparr>"
      using storePrediction_normalized [of k pid "round x" "settings d" n1 n2 m0]
      unfolding m_def [symmetric] by blast
    have acc: "predict d n1 n2 n3 m0 k pid sc = Accepted m'"
      using predict_open [OF that(1) i' that(2,3), of pid sc] that(4) x m'(1)
      by (simp add: m_def)
    have upd: "map_of (predictionsFor k m') pid = Some (round x)"
      "\<forall>q. q \<noteq> pid \<longrightarrow> map_of (predictionsFor k m') q = map_of (predictionsFor k m) q"
      by (simp_all add: m'(2) update_conv')
    from x(1) acc m'(2,3,4) upd show ?thesis by blast
  qed
  show ?thesis
    unfolding Let_def m_def [symmetric] using i predict_toss_unset c2 c3 c4 c5 by auto
qed

theorem predict_checks_witness:
  "(\<exists>m'. predict sampleData 0 0 0 sampleMatch Innings1 ''A'' (Finite 150) = Accepted m' \<and>
         map_of (predictionsFor Innings1 m') ''A'' = Some 150) \<and>
   predict sampleData 0 0 0 sampleMatch Innings1 ''A'' (Finite 10) = Rejected ScoreOutOfRange None \<and>
   predict sampleData 0 0 0 sampleMatch Innings1 ''Z'' (Finite 150) = Rejected UnknownPlayer None \<and>
   predict sampleData 0 0 0 (sampleMatch\<lparr>toss := None\<rparr>) Innings1 ''A'' (Finite 150)
     = Rejected TossNotSet None"
proof -
  have n: "normalizeMatch (settings sampleData) 0 0 sampleMatch = sampleMatch"
    by (simp add: sample_normalized_early)
  have u: "getBattingTeams (sampleMatch\<lparr>toss := None\<rparr>) = None"
    by (simp add: getBattingTeams_def)
  have a: "\<exists>m'. predict sampleData 0 0 0 sampleMatch Innings1 ''A'' (Finite 150) = Accepted m' \<and>
         map_of (predictionsFor Innings1 m') ''A'' = Some 150"
    using predict_checks [of sampleData 0 0 sampleMatch Innings1 0 "''A''" "Finite 150"]
    unfolding Let_def n
    by (simp add: sample_toss sample_innings1 sample_players sample_bounds) blast
  have b: "predict sampleData 0 0 0 sampleMatch Innings1 ''A'' (Finite 10) = Rejected ScoreOutOfRange None"
    using predict_checks [of sampleData 0 0 sampleMatch Innings1 0 "''A''" "Finite 10"]
    unfolding Let_def n
    by (simp add: sample_toss sample_innings1 sample_players sample_bounds)
  have c: "predict sampleData 0 0 0 sampleMatch Innings1 ''Z'' (Finite 150) = Rejected UnknownPlayer None"
    using predict_checks [of sampleData 0 0 sampleMatch Innings1 0 "''Z''" "Finite 150"]
    unfolding Let_def n
    by (simp add: sample_toss sample_innings1 sample_players sample_bounds)
  have e: "predict sampleData 0 0 0 (sampleMatch\<lparr>toss := None\<rparr>) Innings1 ''A'' (Finite 150)
     = Rejected TossNotSet None"
    using predict_checks [of sampleData 0 0 "sampleMatch\<lparr>toss := None\<rparr>" Innings1 0 "''A''" "Finite 150"]
    unfolding Let_def by (simp add: u)
  from a b c e show ?thesis by blast
qed

text \<open>
  The claim C4 as stated asks for an integer score. The handler accepts the score 100.5,
  which is within the bounds 60 and 300, and stores 101.
\<close>

theorem predict_accepts_fraction:
  "predict sampleData 0 0 0 sampleMatch Innings1 ''A'' (Finite (201 / 2)) =
     Accepted (sampleMatch\<lparr>predictions :=
       Some \<lparr>p_innings1 = Some [(''A'', 101)], p_innings2 = Some [], p_other = []\<rparr>\<rparr>)"
proof -
  have r: "round (201 / 2 :: rat) = 101" by (simp add: round_def)
  have "predict sampleData 0 0 0 sampleMatch Innings1 ''A'' (Finite (201 / 2)) =
      (case storePrediction Innings1 ''A'' (round (201 / 2 :: rat)) sampleMatch of
         None \<Rightarrow> Rejected ServerError None | Some m' \<Rightarrow> Accepted m')"
    using predict_open [OF sample_toss, of Innings1 sampleData 0 0
        "\<lparr>status = Open, lockTime = Time 1000, score = None\<rparr>" 0 "''A''" "Finite (201 / 2)"]
    by (simp add: sample_normalized_early sample_innings1 sample_players sample_bounds)
  then show ?thesis by (simp add: r sample_store)
qed

text \<open>
  Claim C5, as the code has it. A submission to an innings (the stored one, or the one
  synthesized from the legacy fields) that is locked or scored, or whose status reads
  open while its lock time is not after the clock reading of the check, is rejected: with \<open>TossNotSet\<close> when the batting order is not resolvable, and
  otherwise with one of the 403 responses \<open>InningsNotOpen\<close> and \<open>PredictionsLocked\<close>. No
  prediction is written: when the handler saves a match, its predictions are those of
  the normalized match, which are the stored ones when these are canonical.
\<close>

theorem predict_closed_innings:
  assumes "effectiveInnings k m0 = i"
    and "status i = Locked \<or> status i = Scored \<or>
         (status i = Open \<and> (\<exists>t. lockTime i = Time t \<and> t \<le> n3))"
  shows "(getBattingTeams m0 = None \<longrightarrow>
            predict d n1 n2 n3 m0 k pid sc = Rejected TossNotSet None) \<and>
         (getBattingTeams m0 \<noteq> None \<longrightarrow>
            predict d n1 n2 n3 m0 k pid sc = Rejected InningsNotOpen None \<or>
            predict d n1 n2 n3 m0 k pid sc =
              Rejected PredictionsLocked (Some (normalizeMatch (settings d) n1 n2 m0))) \<and>
         (\<forall>e m'. predict d n1 n2 n3 m0 k pid sc = Rejected e (Some m') \<longrightarrow>
            predictions m' = Some (normalizePredictions (predictions m0)) \<and>
            (\<forall>ps a b. predictions m0 = Some ps \<and> p_innings1 ps = Some a \<and> p_innings2 ps = Some b
               \<longrightarrow> predictions m' = predictions m0))"
proof -
  obtain i' where i': "inningsOf k (normalizeMatch (settings d) n1 n2 m0) = Some i'"
    "lockTime i' = lockTime i"
    "status i = Locked \<or> status i = Scored \<longrightarrow> status i' = status i"
    "status i = Open \<longrightarrow> status i' = Open \<or> status i' = Locked"
    using inningsOf_normalizeMatch_effective [of k "settings d" n1 n2 m0] assms(1) by blast
  have closed: "status i' \<noteq> Open \<or> (status i' = Open \<and> (\<exists>t. lockTime i' = Time t \<and> t \<le> n3))"
    using assms(2) i'(2,3,4) by auto
  have b: "predict d n1 n2 n3 m0 k pid sc = Rejected InningsNotOpen None \<or>
           predict d n1 n2 n3 m0 k pid sc =
             Rejected PredictionsLocked (Some (normalizeMatch (settings d) n1 n2 m0))"
    if "getBattingTeams m0 \<noteq> None"
    using closed predict_not_open [OF that i'(1)] predict_time_locked [OF that i'(1)] by blast
  have c: "predictions m' = Some (normalizePredictions (predictions m0)) \<and>
            (\<forall>ps a b. predictions m0 = Some ps \<and> p_innings1 ps = Some a \<and> p_innings2 ps = Some b
               \<longrightarrow> predictions m' = predictions m0)"
    if "predict d n1 n2 n3 m0 k pid sc = Rejected e (Some m')" for e m'
  proof -
    have "m' = normalizeMatch (settings d) n1 n2 m0"
      using that b predict_toss_unset [of m0 d n1 n2 n3 k pid sc]
      by (cases "getBattingTeams m0 = None") auto
    then show ?thesis by (auto simp: normalizePredictions_canonical)
  qed
  show ?thesis using predict_toss_unset b c by blast
qed

theorem predict_closed_innings_witness:
  "predict sampleData 500 500 2000 sampleMatch Innings1 ''A'' (Finite 150)
     = Rejected PredictionsLocked (Some sampleMatch)"
proof -
  have h: "status \<lparr>status = Open, lockTime = Time 1000, score = None\<rparr> = Locked \<or>
           status \<lparr>status = Open, lockTime = Time 1000, score = None\<rparr> = Scored \<or>
           (status \<lparr>status = Open, lockTime = Time 1000, score = None\<rparr> = Open \<and>
            (\<exists>t. lockTime \<lparr>status = Open, lockTime = Time 1000, score = None\<rparr> = Time t \<and> t \<le> 2000))"
    by simp
  have n: "normalizeMatch (settings sampleData) 500 500 sampleMatch = sampleMatch"
    by (simp add: sample_normalized_early)
  have b: "predict sampleData 500 500 2000 sampleMatch Innings1 ''A'' (Finite 150)
             \<noteq> Rejected InningsNotOpen None"
    using predict_time_locked [OF sample_toss, of Innings1 sampleData 500 500
        "\<lparr>status = Open, lockTime = Time 1000, score = None\<rparr>" 2000 "''A''" "Finite 150"]
    by (simp add: n sample_innings1)
  have i: "effectiveInnings Innings1 sampleMatch
             = \<lparr>status = Open, lockTime = Time 1000, score = None\<rparr>"
    by (simp add: sampleMatch_def)
  from predict_closed_innings [OF i h, of sampleData 500 500 "''A''" "Finite 150"]
    sample_toss b n
  show ?thesis by simp
qed

text \<open>
  The claim C5 as stated promises the innings-not-open error. With the toss unset the
  handler rejects a submission to a locked innings with \<open>TossNotSet\<close>.
\<close>

theorem predict_toss_first:
  "predict sampleData 0 0 0
     (sampleMatch\<lparr>toss := None,
                  innings1 := Some \<lparr>status = Locked, lockTime = Time 1000, score = None\<rparr>\<rparr>)
     Innings1 ''A'' (Finite 150) = Rejected TossNotSet None"
  by (simp add: predict_def sampleMatch_def getBattingTeams_def Let_def)


section \<open>Reopening one innings\<close>

lemma storedResult_clearResult:
  "storedResult k (m\<lparr>result := clearResult k' (result m)\<rparr>) =
     (if k = k' then None else storedResult k m)"
  by (cases k; cases k'; cases "result m") (simp_all add: storedResult_def clearResult_def)

lemma storedResult_innings_update [simp]:
  "storedResult k (m\<lparr>innings1 := x\<rparr>) = storedResult k m"
  "storedResult k (m\<lparr>innings2 := y\<rparr>) = storedResult k m"
  "storedResult k (normalizeMatch st n1 n2 m) = storedResult k m"
  by (simp_all add: storedResult_def)

lemma reopen_single_innings1:
  "reopen True d n1 n2 m0 (Some Innings1) =
     Accepted ((normalizeMatch (settings d) n1 n2 m0)
       \<lparr>innings1 := Some ((normalizeInningsStatus n1
                             (case innings1 m0 of None \<Rightarrow> legacyInnings1 m0 | Some i \<Rightarrow> i))
                           \<lparr>status := Open, score := None\<rparr>),
        result := clearResult Innings1 (result m0)\<rparr>)"
  by (simp add: reopen_def Let_def)

text \<open>
  Claim C9, as the code has it. For an administrator, reopening innings 1 alone succeeds
  on every match, whatever the state of the innings. It sets the status of innings 1 to
  open and clears its score and its stored result. Innings 2 is the innings 2 of the
  normalized match and its stored result is unchanged: its score and lock time are the
  stored ones, and the whole innings is the stored one unless normalization promoted it
  (it was pending while innings 1 was scored) or locked it (it was open and its lock time
  had passed). In particular a scored innings 2 keeps its score.
\<close>

theorem reopen_innings1:
  "let m = normalizeMatch (settings d) n1 n2 m0;
       j1 = effectiveInnings Innings1 m0
   in \<exists>m' i1.
        reopen True d n1 n2 m0 (Some Innings1) = Accepted m' \<and>
        innings1 m' = Some i1 \<and> status i1 = Open \<and> score i1 = None \<and>
        storedResult Innings1 m' = None \<and>
        innings2 m' = innings2 m \<and>
        storedResult Innings2 m' = storedResult Innings2 m0 \<and>
        (\<forall>i2. innings2 m0 = Some i2 \<longrightarrow>
           (\<exists>i2'. innings2 m' = Some i2' \<and> score i2' = score i2 \<and> lockTime i2' = lockTime i2) \<and>
           (\<not> (status i2 = Pending \<and> status j1 = Scored) \<and>
            \<not> (status i2 = Open \<and> (\<exists>t. lockTime i2 = Time t \<and> t \<le> n2))
              \<longrightarrow> innings2 m' = Some i2))"
proof -
  define m' where "m' = (normalizeMatch (settings d) n1 n2 m0)
       \<lparr>innings1 := Some ((normalizeInningsStatus n1
                             (case innings1 m0 of None \<Rightarrow> legacyInnings1 m0 | Some i \<Rightarrow> i))
                           \<lparr>status := Open, score := None\<rparr>),
        result := clearResult Innings1 (result m0)\<rparr>"
  have r: "reopen True d n1 n2 m0 (Some Innings1) = Accepted m'"
    by (simp add: reopen_single_innings1 m'_def)
  have a: "\<exists>i1. innings1 m' = Some i1 \<and> status i1 = Open \<and> score i1 = None"
    by (simp add: m'_def)
  have b: "storedResult Innings1 m' = None" "storedResult Innings2 m' = storedResult Innings2 m0"
    by (cases "result m0"; simp add: m'_def storedResult_def clearResult_def)+
  have c: "innings2 m' = innings2 (normalizeMatch (settings d) n1 n2 m0)"
    by (simp add: m'_def)
  have e: "(\<exists>i2'. innings2 m' = Some i2' \<and> score i2' = score i2 \<and> lockTime i2' = lockTime i2) \<and>
           (\<not> (status i2 = Pending \<and>
                status (effectiveInnings Innings1 m0) = Scored) \<and>
            \<not> (status i2 = Open \<and> (\<exists>t. lockTime i2 = Time t \<and> t \<le> n2))
              \<longrightarrow> innings2 m' = Some i2)"
    if "innings2 m0 = Some i2" for i2
    using that
    by (auto simp: m'_def promoteInnings2_noop normalizeInningsStatus_eq)
  show ?thesis unfolding Let_def using r a b c e by blast
qed

theorem reopen_innings1_witness:
  "\<exists>m' i1. reopen True sampleData 1200 1200 secondInningsMatch (Some Innings1) = Accepted m' \<and>
      innings1 m' = Some i1 \<and> status i1 = Open \<and> score i1 = None \<and>
      storedResult Innings1 m' = None \<and>
      innings2 m' = Some \<lparr>status = Open, lockTime = Time 1500, score = None\<rparr>"
proof -
  have i2: "innings2 secondInningsMatch = Some \<lparr>status = Open, lockTime = Time 1500, score = None\<rparr>"
    by (simp add: secondInningsMatch_def)
  have h: "\<not> (status \<lparr>status = Open, lockTime = Time 1500, score = None\<rparr> = Pending \<and>
              status (effectiveInnings Innings1 secondInningsMatch) = Scored) \<and>
           \<not> (status \<lparr>status = Open, lockTime = Time 1500, score = None\<rparr> = Open \<and>
              (\<exists>t. lockTime \<lparr>status = Open, lockTime = Time 1500, score = None\<rparr> = Time t \<and> t \<le> 1200))"
    by simp
  from reopen_innings1 [of sampleData 1200 1200 secondInningsMatch] i2 h
  show ?thesis unfolding Let_def by metis
qed

text \<open>
  The claim C9 as stated leaves the status of innings 2 unchanged. Reopening innings 1
  at time 2000 turns a stored innings 2 that is open with lock time 1500 into a locked
  one.
\<close>

theorem reopen_innings1_locks_innings2:
  "reopen True sampleData 2000 2000 secondInningsMatch (Some Innings1) =
     Accepted (secondInningsMatch
       \<lparr>innings1 := Some \<lparr>status = Open, lockTime = Time 1000, score = None\<rparr>,
        innings2 := Some \<lparr>status = Locked, lockTime = Time 1500, score = None\<rparr>,
        result := Some \<lparr>r_innings1 = None, r_innings2 = None\<rparr>\<rparr>) \<and>
   innings2 secondInningsMatch = Some \<lparr>status = Open, lockTime = Time 1500, score = None\<rparr>"
  by (simp add: reopen_def secondInningsMatch_def sampleMatch_def normalizeMatch_def Let_def
        normalizeInningsStatus_def isInningsLocked_def normalizePredictions_def promoteInnings2_def
        clearResult_def)

section \<open>Scoreboard aggregator: accumulation\<close>

lemma playerId_recordPrediction [simp]: "playerId (recordPrediction diff r) = playerId r"
  by (simp add: recordPrediction_def Let_def)

lemma playerId_recordWin [simp]: "playerId (recordWin bonus diff r) = playerId r"
  by (simp add: recordWin_def Let_def)

lemma playerId_awardStep [simp]: "playerId (awardStep bonus W e r) = playerId r"
  by (simp add: awardStep_def)

lemma playerId_tallyEffect [simp]: "playerId (tallyEffect sc preds ids r) = playerId r"
  by (simp add: tallyEffect_def split: option.splits)

lemma tally_eq:
  assumes "distinct (map player_id ps)"
  shows "tally sc preds ps (dfs, stats) =
           (dfs @ entries sc preds ps, map (tallyEffect sc preds (map player_id ps)) stats)"
  using assms
proof (induction ps arbitrary: dfs stats)
  case Nil
  then show ?case by (simp add: tallyEffect_def)
next
  case (Cons p ps)
  then have d: "player_id p \<notin> set (map player_id ps)" and dd: "distinct (map player_id ps)"
    by simp_all
  show ?case
  proof (cases "map_of preds (player_id p)")
    case None
    have "tallyEffect sc preds (map player_id (p # ps)) r = tallyEffect sc preds (map player_id ps) r"
      for r using None by (auto simp: tallyEffect_def)
    then show ?thesis using None Cons.IH [OF dd] by simp
  next
    case (Some v)
    have "tallyEffect sc preds (map player_id ps)
            (if playerId r = player_id p then recordPrediction \<bar>v - sc\<bar> r else r)
          = tallyEffect sc preds (map player_id (p # ps)) r" for r
      using Some d by (auto simp: tallyEffect_def)
    then show ?thesis using Some Cons.IH [OF dd]
      by (simp add: stats_update_def Let_def comp_def)
  qed
qed

lemma award_map: "award bonus W e stats = map (\<lambda>r. awardStep bonus W e r) stats"
  by (cases "fst e \<in> set W") (simp_all add: award_def stats_update_def awardStep_def)

lemma fold_award:
  "fold (award bonus W) es stats = map (\<lambda>r. fold (awardStep bonus W) es r) stats"
  by (induction es arbitrary: stats) (simp_all add: award_map comp_def)

lemma fold_awardStep_other:
  "playerId r \<notin> fst ` set es \<Longrightarrow> fold (awardStep bonus W) es r = r"
  by (induction es arbitrary: r) (auto simp: awardStep_def)

lemma fold_awardStep_distinct:
  assumes "distinct (map fst es)"
  shows "fold (awardStep bonus W) es r =
     (case map_of es (playerId r) of
        None \<Rightarrow> r
      | Some diff \<Rightarrow> if playerId r \<in> set W then recordWin bonus diff r else r)"
  using assms
proof (induction es arbitrary: r)
  case Nil
  then show ?case by simp
next
  case (Cons e es)
  obtain q diff where e: "e = (q, diff)" by (cases e)
  from Cons.prems e have nq: "q \<notin> fst ` set es" and dd: "distinct (map fst es)" by auto
  show ?case
  proof (cases "playerId r = q")
    case True
    then have "playerId (awardStep bonus W e r) \<notin> fst ` set es" using nq by simp
    then have "fold (awardStep bonus W) es (awardStep bonus W e r) = awardStep bonus W e r"
      by (rule fold_awardStep_other)
    moreover have "awardStep bonus W e r = (if q \<in> set W then recordWin bonus diff r else r)"
      using True e by (simp add: awardStep_def)
    ultimately show ?thesis using True e by simp
  next
    case False
    then have "awardStep bonus W e r = r" using e by (simp add: awardStep_def)
    then show ?thesis using False e Cons.IH [OF dd, of r] by simp
  qed
qed

lemma map_fst_entries:
  "map fst (entries sc preds ps) = filter (\<lambda>q. map_of preds q \<noteq> None) (map player_id ps)"
  by (induction ps) (auto split: option.splits)

lemma map_of_entries:
  "map_of (entries sc preds ps) q =
     (if q \<in> player_id ` set ps
      then (case map_of preds q of None \<Rightarrow> None | Some v \<Rightarrow> Some \<bar>v - sc\<bar>)
      else None)"
  by (induction ps) (auto split: option.splits)

lemma processInnings_map:
  assumes "distinct (map player_id (players d))"
  shows "processInnings d m k stats = map (\<lambda>r. inningsEffect d m k r) stats"
  by (auto simp: processInnings_def inningsEffect_def tally_eq [OF assms] fold_award Let_def
      split: option.splits)

lemma inningsEffect_addStats:
  assumes "distinct (map player_id (players d))"
    and "playerId r \<in> player_id ` set (players d)"
  shows "inningsEffect d m k r = addStats d (scoredOne m k) r"
proof (cases "scoredOne m k")
  case Nil
  then have "inningsEffect d m k r = r"
    by (auto simp: inningsEffect_def scoredOne_def split: option.splits if_splits)
  with Nil show ?thesis by (simp add: addStats_def)
next
  case (Cons e es)
  then obtain i sc where i: "inningsOf k m = Some i" "status i = Scored" "score i = Some sc"
    and e: "scoredOne m k = [(m, k, sc)]"
    by (auto simp: scoredOne_def split: option.splits if_splits)
  let ?preds = "predictionsFor k m"
  have dist: "distinct (map fst (entries sc ?preds (players d)))"
    using assms(1) by (simp add: map_fst_entries)
  have eff: "inningsEffect d m k r =
      fold (awardStep (bonusExact (settings d)) (winnersFor d m k sc))
        (entries sc ?preds (players d))
        (tallyEffect sc ?preds (map player_id (players d)) r)"
    using i by (simp add: inningsEffect_def)
  show ?thesis
  proof (cases "map_of ?preds (playerId r)")
    case None
    then show ?thesis using assms(2) e
      by (simp add: eff fold_awardStep_distinct [OF dist] map_of_entries tallyEffect_def
          addStats_def predictionDiff_def pointsFor_def)
  next
    case (Some v)
    then show ?thesis using assms(2) e
      by (auto simp: eff fold_awardStep_distinct [OF dist] map_of_entries tallyEffect_def
          addStats_def predictionDiff_def pointsFor_def isWinner_def recordPrediction_def
          recordWin_def Let_def)
  qed
qed

lemma playerId_addStats [simp]: "playerId (addStats d es r) = playerId r"
  by (simp add: addStats_def)

lemma addStats_append: "addStats d es2 (addStats d es1 r) = addStats d (es1 @ es2) r"
  by (simp add: addStats_def)

lemma fold_map_pointwise:
  assumes "\<And>m st. step m st = map (g m) st"
  shows "fold step ms st = map (\<lambda>r. fold g ms r) st"
  by (induction ms arbitrary: st) (simp_all add: assms comp_def)

lemma fold_inningsEffect:
  assumes "distinct (map player_id (players d))"
    and "playerId r \<in> player_id ` set (players d)"
  shows "fold (\<lambda>m r. inningsEffect d m Innings2 (inningsEffect d m Innings1 r)) ms r =
           addStats d (concat (map (\<lambda>m. scoredOne m Innings1 @ scoredOne m Innings2) ms)) r"
  using assms(2)
proof (induction ms arbitrary: r)
  case Nil
  then show ?case by (simp add: addStats_def)
next
  case (Cons m ms)
  have 1: "inningsEffect d m Innings1 r = addStats d (scoredOne m Innings1) r"
    using inningsEffect_addStats [OF assms(1) Cons.prems] .
  have 2: "inningsEffect d m Innings2 (addStats d (scoredOne m Innings1) r) =
             addStats d (scoredOne m Innings1 @ scoredOne m Innings2) r"
    using inningsEffect_addStats [OF assms(1), of "addStats d (scoredOne m Innings1) r" m Innings2]
      Cons.prems by (simp add: addStats_append)
  have 3: "playerId (addStats d (scoredOne m Innings1 @ scoredOne m Innings2) r)
             \<in> player_id ` set (players d)"
    using Cons.prems by simp
  show ?case using Cons.IH [OF 3] by (simp add: 1 2 addStats_append)
qed

lemma stats_set_fresh: "playerId r \<notin> playerId ` set xs \<Longrightarrow> stats_set r xs = xs @ [r]"
  by (induction xs) auto

lemma playerId_newRow [simp]: "playerId (newRow p) = player_id p"
  by (simp add: newRow_def)

lemma fold_stats_set:
  assumes "distinct (map player_id ps)"
    and "player_id ` set ps \<inter> playerId ` set acc = {}"
  shows "fold (\<lambda>p. stats_set (newRow p)) ps acc = acc @ map newRow ps"
  using assms
proof (induction ps arbitrary: acc)
  case Nil
  then show ?case by simp
next
  case (Cons p ps)
  from Cons.prems have f: "playerId (newRow p) \<notin> playerId ` set acc" by auto
  from Cons.prems have "player_id ` set ps \<inter> playerId ` set (acc @ [newRow p]) = {}"
    by auto
  with Cons.IH [of "acc @ [newRow p]"] Cons.prems show ?case
    by (simp add: stats_set_fresh [OF f])
qed

lemma initStats_distinct:
  "distinct (map player_id ps) \<Longrightarrow> initStats ps = map newRow ps"
  using fold_stats_set [of ps "[]"] by (simp add: initStats_def)

lemma accumulate_eq:
  assumes "distinct (map player_id (players d))"
  shows "accumulate d = map (\<lambda>p. addStats d (scoredInnings d) (newRow p)) (players d)"
proof -
  have step: "fold (processInnings d m) [Innings1, Innings2] st =
      map (\<lambda>r. inningsEffect d m Innings2 (inningsEffect d m Innings1 r)) st" for m st
    by (simp add: processInnings_map [OF assms] comp_def)
  have "accumulate d =
      map (\<lambda>r. fold (\<lambda>m r. inningsEffect d m Innings2 (inningsEffect d m Innings1 r)) (matches d) r)
        (map newRow (players d))"
    using fold_map_pointwise [of "\<lambda>m st. fold (processInnings d m) [Innings1, Innings2] st"
        "\<lambda>m r. inningsEffect d m Innings2 (inningsEffect d m Innings1 r)", OF step]
    by (simp add: accumulate_def initStats_distinct [OF assms])
  also have "\<dots> = map (\<lambda>p. addStats d (scoredInnings d) (newRow p)) (players d)"
    by (simp add: fold_inningsEffect [OF assms] scoredInnings_def comp_def)
  finally show ?thesis .
qed

lemma scoredOne_set:
  "(m', k', sc) \<in> set (scoredOne m k) \<longleftrightarrow>
     m' = m \<and> k' = k \<and> (\<exists>i. inningsOf k m = Some i \<and> status i = Scored \<and> score i = Some sc)"
proof (cases "inningsOf k m")
  case None
  then show ?thesis by (simp add: scoredOne_def)
next
  case (Some i)
  note i = this
  show ?thesis
  proof (cases "status i = Scored")
    case False
    with i show ?thesis by (simp add: scoredOne_def)
  next
    case True
    note scored = this
    show ?thesis
    proof (cases "score i")
      case None
      with i scored show ?thesis by (simp add: scoredOne_def)
    next
      case (Some a)
      with i scored show ?thesis by (auto simp: scoredOne_def)
    qed
  qed
qed

lemma scoredInnings_iff:
  "(m, k, sc) \<in> set (scoredInnings d) \<longleftrightarrow>
     m \<in> set (matches d) \<and> (\<exists>i. inningsOf k m = Some i \<and> status i = Scored \<and> score i = Some sc)"
proof (cases k)
  case Innings1
  then show ?thesis by (auto simp: scoredInnings_def scoredOne_set)
next
  case Innings2
  then show ?thesis by (auto simp: scoredInnings_def scoredOne_set)
qed


section \<open>Scoreboard aggregator: the final sort\<close>

lemma set_insertBy [simp]: "set (insertBy cmp x xs) = insert x (set xs)"
  by (induction xs) auto

lemma length_insertBy [simp]: "length (insertBy cmp x xs) = Suc (length xs)"
  by (induction xs) auto

lemma set_sortBy [simp]: "set (sortBy cmp xs) = set xs"
  by (induction xs) (simp_all add: sortBy_def)

lemma length_sortBy [simp]: "length (sortBy cmp xs) = length xs"
  by (induction xs) (simp_all add: sortBy_def)

lemma sorted_insertBy:
  assumes total: "\<And>a b. cmp a b \<le> 0 \<or> cmp b a \<le> 0"
    and trans: "\<And>a b c. cmp a b \<le> 0 \<Longrightarrow> cmp b c \<le> 0 \<Longrightarrow> cmp a c \<le> 0"
    and "sorted_wrt (\<lambda>a b. cmp a b \<le> 0) xs"
  shows "sorted_wrt (\<lambda>a b. cmp a b \<le> 0) (insertBy cmp x xs)"
  using assms(3)
proof (induction xs)
  case Nil
  then show ?case by simp
next
  case (Cons y ys)
  show ?case
  proof (cases "cmp x y \<le> 0")
    case True
    with Cons.prems trans show ?thesis by auto
  next
    case False
    with total have "cmp y x \<le> 0" by blast
    with False Cons show ?thesis by auto
  qed
qed

lemma sorted_sortBy:
  assumes total: "\<And>a b. cmp a b \<le> 0 \<or> cmp b a \<le> 0"
    and trans: "\<And>a b c. cmp a b \<le> 0 \<Longrightarrow> cmp b c \<le> 0 \<Longrightarrow> cmp a c \<le> 0"
  shows "sorted_wrt (\<lambda>a b. cmp a b \<le> 0) (sortBy cmp xs)"
  by (induction xs) (simp_all add: sortBy_def sorted_insertBy [OF total trans])

lemma compareRows_le_iff:
  "compareRows lc a b \<le> 0 \<longleftrightarrow>
     points b < points a \<or>
     (points a = points b \<and>
        (toNumber (avgDiff a) < toNumber (avgDiff b) \<or>
         (toNumber (avgDiff a) = toNumber (avgDiff b) \<and> lc (name a) (name b) \<le> 0)))"
  by (auto simp: compareRows_def Let_def)

lemma compareRows_total:
  assumes "\<forall>x y. lc x y \<le> 0 \<or> lc y x \<le> 0"
  shows "compareRows lc a b \<le> 0 \<or> compareRows lc b a \<le> 0"
  using assms unfolding compareRows_le_iff by (metis linorder_less_linear)

lemma compareRows_trans:
  assumes "\<forall>x y z. lc x y \<le> 0 \<and> lc y z \<le> 0 \<longrightarrow> lc x z \<le> 0"
    and "compareRows lc a b \<le> 0" and "compareRows lc b c \<le> 0"
  shows "compareRows lc a c \<le> 0"
proof -
  have n: "lc (name a) (name b) \<le> 0 \<Longrightarrow> lc (name b) (name c) \<le> 0 \<Longrightarrow> lc (name a) (name c) \<le> 0"
    using assms(1) by blast
  from assms(2,3) show ?thesis
    unfolding compareRows_le_iff using n by (elim disjE conjE) simp_all
qed

lemma buildScoreboard_sorted:
  assumes "\<forall>x y. lc x y \<le> 0 \<or> lc y x \<le> 0"
    and "\<forall>x y z. lc x y \<le> 0 \<and> lc y z \<le> 0 \<longrightarrow> lc x z \<le> 0"
  shows "sorted_wrt (\<lambda>a b. compareRows lc a b \<le> 0) (buildScoreboard lc d)"
  unfolding buildScoreboard_def
  by (rule sorted_sortBy) (use assms compareRows_total compareRows_trans in blast)+

lemma buildScoreboard_order:
  assumes "\<forall>x y. lc x y \<le> 0 \<or> lc y x \<le> 0"
    and "\<forall>x y z. lc x y \<le> 0 \<and> lc y z \<le> 0 \<longrightarrow> lc x z \<le> 0"
    and "i < j" and "j < length (buildScoreboard lc d)"
  shows "compareRows lc (buildScoreboard lc d ! i) (buildScoreboard lc d ! j) \<le> 0"
  using buildScoreboard_sorted [OF assms(1,2), of d] assms(3,4)
  by (simp add: sorted_wrt_iff_nth_less)

lemma avgDiff_withAvgDiff:
  "avgDiff (withAvgDiff r) =
     (if predictionCount r = 0 then None
      else Some (toFixed2 (of_int (totalDiff r) / of_nat (predictionCount r))))"
  by (simp add: withAvgDiff_def)

lemma withAvgDiff_fields [simp]:
  "playerId (withAvgDiff r) = playerId r" "name (withAvgDiff r) = name r"
  "wins (withAvgDiff r) = wins r" "exactHits (withAvgDiff r) = exactHits r"
  "points (withAvgDiff r) = points r" "totalDiff (withAvgDiff r) = totalDiff r"
  "predictionCount (withAvgDiff r) = predictionCount r"
  by (simp_all add: withAvgDiff_def)

lemma buildScoreboard_avgDiff:
  assumes "r \<in> set (buildScoreboard lc d)"
  shows "avgDiff r =
     (if predictionCount r = 0 then None
      else Some (toFixed2 (of_int (totalDiff r) / of_nat (predictionCount r))))"
  using assms by (auto simp: buildScoreboard_def avgDiff_withAvgDiff)

lemma toFixed2_near: "\<bar>toFixed2 x - x\<bar> \<le> 1 / 200"
proof -
  have "\<bar>of_int (round (x * 100)) - x * 100\<bar> \<le> 1 / 2"
    by (rule of_int_round_abs_le)
  then have "\<bar>(of_int (round (x * 100)) - x * 100) / 100\<bar> \<le> (1 / 2) / 100"
    by (simp add: abs_divide del: of_int_round_abs_le)
  then show ?thesis by (simp add: toFixed2_def diff_divide_distrib)
qed

lemma toFixed2_hundredths: "toFixed2 x = of_int (round (toFixed2 x * 100)) / 100"
  by (simp add: toFixed2_def)

lemma codeUnitCompare_total: "\<forall>x y. codeUnitCompare x y \<le> 0 \<or> codeUnitCompare y x \<le> 0"
  by (auto simp: codeUnitCompare_def)

lemma codeUnitCompare_trans:
  "\<forall>x y z. codeUnitCompare x y \<le> 0 \<and> codeUnitCompare y z \<le> 0 \<longrightarrow> codeUnitCompare x z \<le> 0"
  by (auto simp: codeUnitCompare_def split: if_splits)

lemma floor_rat_numeral: "\<lfloor>numeral a / numeral b :: rat\<rfloor> = numeral a div numeral b"
  by (metis floor_divide_of_int_eq of_int_numeral)

lemma floor_rat_one_numeral: "\<lfloor>1 / numeral b :: rat\<rfloor> = 1 div numeral b"
  by (metis floor_divide_of_int_eq of_int_1 of_int_numeral)

lemmas scoreboard_eval =
  floor_rat_numeral floor_rat_one_numeral
  buildScoreboard_def accumulate_def initStats_def processInnings_def inningsOf_def
  predictionsFor_def winnersFor_def storedResult_def computeInningsResult_def award_def
  stats_update_def recordPrediction_def recordWin_def newRow_def withAvgDiff_def toFixed2_def
  sortBy_def compareRows_def toNumber_def codeUnitCompare_def Let_def round_def
  sampleMatch_def sampleSettings_def samplePlayers_def

lemma league_scoreboard:
  "buildScoreboard codeUnitCompare leagueData =
     [\<lparr>playerId = ''C'', name = ''Chitra'', wins = 1, exactHits = 1, points = 3, totalDiff = 0,
        predictionCount = 1, scoredMatches = 1, avgDiff = Some 0\<rparr>,
      \<lparr>playerId = ''B'', name = ''Bela'', wins = 1, exactHits = 0, points = 1, totalDiff = 10,
        predictionCount = 2, scoredMatches = 2, avgDiff = Some 5\<rparr>,
      \<lparr>playerId = ''A'', name = ''Asha'', wins = 1, exactHits = 0, points = 1, totalDiff = 15,
        predictionCount = 2, scoredMatches = 2, avgDiff = Some (15 / 2)\<rparr>,
      \<lparr>playerId = ''D'', name = ''Dev'', wins = 0, exactHits = 0, points = 0, totalDiff = 0,
        predictionCount = 0, scoredMatches = 0, avgDiff = None\<rparr>,
      \<lparr>playerId = ''E'', name = ''Esha'', wins = 0, exactHits = 0, points = 0, totalDiff = 30,
        predictionCount = 1, scoredMatches = 1, avgDiff = Some 30\<rparr>]"
  by (simp add: scoreboard_eval leagueData_def leagueMatch_def leaguePlayers_def)

lemma stale_scoreboard:
  "buildScoreboard codeUnitCompare staleData =
     [\<lparr>playerId = ''A'', name = ''Asha'', wins = 0, exactHits = 0, points = 0, totalDiff = 0,
        predictionCount = 0, scoredMatches = 0, avgDiff = None\<rparr>,
      \<lparr>playerId = ''B'', name = ''Bela'', wins = 0, exactHits = 0, points = 0, totalDiff = 0,
        predictionCount = 0, scoredMatches = 0, avgDiff = None\<rparr>]"
  by (simp add: scoreboard_eval staleData_def staleMatch_def)

lemma league_distinct: "distinct (map player_id (players leagueData))"
  by (simp add: leagueData_def leaguePlayers_def)

lemma computed_winners_predicted:
  assumes "computeInningsResult (Some sc) preds pls = Some r" and "p \<in> set (winners r)"
  shows "map_of preds p \<noteq> None"
proof (cases "entries sc preds pls = []")
  case True
  with assms(1) have "winners r = []" by (auto simp: computeInningsResult_def)
  with assms(2) show ?thesis by simp
next
  case False
  with assms have "p \<in> fst ` set (entries sc preds pls)"
    by (auto simp: computeInningsResult_def Let_def)
  then show ?thesis by (auto simp: entries_set)
qed

lemma isWinner_predicted:
  assumes stored: "\<forall>m k sc r. (m, k, sc) \<in> set (scoredInnings d) \<and> storedResult k m = Some r \<longrightarrow>
                     (\<forall>p\<in>set (winners r). map_of (predictionsFor k m) p \<noteq> None)"
    and e: "e \<in> set (scoredInnings d)"
    and w: "isWinner d p e"
  shows "predictionDiff p e \<noteq> None"
proof -
  obtain m k sc where mk: "e = (m, k, sc)" by (cases e)
  have "map_of (predictionsFor k m) p \<noteq> None"
  proof (cases "storedResult k m")
    case (Some r)
    with w mk have "p \<in> set (winners r)" by (simp add: isWinner_def winnersFor_def)
    with stored e mk Some show ?thesis by blast
  next
    case None
    show ?thesis
    proof (cases "computeInningsResult (Some sc) (predictionsFor k m) (players d)")
      case None
      with w mk \<open>storedResult k m = None\<close> show ?thesis by (simp add: isWinner_def winnersFor_def)
    next
      case (Some r)
      with w mk \<open>storedResult k m = None\<close> have "p \<in> set (winners r)"
        by (simp add: isWinner_def winnersFor_def)
      with Some show ?thesis by (rule computed_winners_predicted)
    qed
  qed
  then show ?thesis by (auto simp: predictionDiff_def mk)
qed

lemma scoreboard_rows:
  assumes "distinct (map player_id (players d))"
  shows "set (buildScoreboard lc d) =
           (\<lambda>p. withAvgDiff (addStats d (scoredInnings d) (newRow p))) ` set (players d)"
    and "length (buildScoreboard lc d) = length (players d)"
  by (simp_all add: buildScoreboard_def accumulate_eq [OF assms] image_image)

lemma league_stored:
  "\<forall>m k sc r. (m, k, sc) \<in> set (scoredInnings leagueData) \<and> storedResult k m = Some r \<longrightarrow>
     (\<forall>p\<in>set (winners r). map_of (predictionsFor k m) p \<noteq> None)"
proof (intro allI impI)
  fix m k sc r
  assume a: "(m, k, sc) \<in> set (scoredInnings leagueData) \<and> storedResult k m = Some r"
  then have "m \<in> set (matches leagueData)" by (simp add: scoredInnings_iff)
  then have "m = leagueMatch \<or> m = sampleMatch" by (simp add: leagueData_def)
  with a show "\<forall>p\<in>set (winners r). map_of (predictionsFor k m) p \<noteq> None"
    by (cases k)
      (auto simp: storedResult_def predictionsFor_def leagueMatch_def sampleMatch_def)
qed

text \<open>
  Claim C2. In a room whose player ids are distinct and whose stored results name as
  winners only players with a recorded prediction in the innings (the only results the
  score handler writes), the scoreboard has one row for each player, and the row of a
  player accumulates over the scored innings (status scored and score present; no other
  innings contributes): the absolute difference of each recorded prediction in
  \<open>totalDiff\<close>, 1 in \<open>predictionCount\<close> for each recorded prediction, 1 in \<open>exactHits\<close> for
  each prediction with difference 0, and, for each innings whose winners set has the
  player, 1 in \<open>wins\<close> and 1 in \<open>points\<close> plus \<open>bonusExact\<close> when the player's difference
  is 0 and \<open>bonusExact\<close> is positive.
\<close>

theorem buildScoreboard_accumulates:
  assumes "distinct (map player_id (players d))"
    and "\<forall>m k sc r. (m, k, sc) \<in> set (scoredInnings d) \<and> storedResult k m = Some r \<longrightarrow>
           (\<forall>p\<in>set (winners r). map_of (predictionsFor k m) p \<noteq> None)"
  shows "let rows = buildScoreboard lc d; es = scoredInnings d; bonus = bonusExact (settings d) in
     (\<forall>m k sc. (m, k, sc) \<in> set es \<longleftrightarrow>
        m \<in> set (matches d) \<and>
        (\<exists>i. inningsOf k m = Some i \<and> status i = Scored \<and> score i = Some sc)) \<and>
     set (map playerId rows) = player_id ` set (players d) \<and> length rows = length (players d) \<and>
     (\<forall>r\<in>set rows.
        totalDiff r =
          sum_list (map (\<lambda>e. case predictionDiff (playerId r) e of None \<Rightarrow> 0 | Some diff \<Rightarrow> diff) es) \<and>
        predictionCount r = length (filter (\<lambda>e. predictionDiff (playerId r) e \<noteq> None) es) \<and>
        exactHits r = length (filter (\<lambda>e. predictionDiff (playerId r) e = Some 0) es) \<and>
        wins r = length (filter (\<lambda>e. isWinner d (playerId r) e) es) \<and>
        points r =
          sum_list (map (\<lambda>e. if isWinner d (playerId r) e
                              then 1 + (if predictionDiff (playerId r) e = Some 0 \<and> 0 < bonus
                                        then bonus else 0)
                              else 0) es))"
proof -
  define es where "es = scoredInnings d"
  define rows where "rows = buildScoreboard lc d"
  have rows: "set rows = (\<lambda>p. withAvgDiff (addStats d es (newRow p))) ` set (players d)"
    unfolding rows_def es_def by (rule scoreboard_rows(1) [OF assms(1)])
  have pred: "predictionDiff p e \<noteq> None" if "e \<in> set es" "isWinner d p e" for p e
    using isWinner_predicted [OF assms(2)] that unfolding es_def by blast
  have A: "\<forall>m k sc. (m, k, sc) \<in> set es \<longleftrightarrow>
        m \<in> set (matches d) \<and>
        (\<exists>i. inningsOf k m = Some i \<and> status i = Scored \<and> score i = Some sc)"
    unfolding es_def using scoredInnings_iff by blast
  have B: "set (map playerId rows) = player_id ` set (players d)"
    by (simp add: rows image_image)
  have C: "length rows = length (players d)"
    unfolding rows_def by (rule scoreboard_rows(2) [OF assms(1)])
  have E: "\<forall>r\<in>set rows.
        totalDiff r =
          sum_list (map (\<lambda>e. case predictionDiff (playerId r) e of None \<Rightarrow> 0 | Some diff \<Rightarrow> diff) es) \<and>
        predictionCount r = length (filter (\<lambda>e. predictionDiff (playerId r) e \<noteq> None) es) \<and>
        exactHits r = length (filter (\<lambda>e. predictionDiff (playerId r) e = Some 0) es) \<and>
        wins r = length (filter (\<lambda>e. isWinner d (playerId r) e) es) \<and>
        points r =
          sum_list (map (\<lambda>e. if isWinner d (playerId r) e
                              then 1 + (if predictionDiff (playerId r) e = Some 0 \<and>
                                           0 < bonusExact (settings d)
                                        then bonusExact (settings d) else 0)
                              else 0) es)"
  proof
    fix r assume "r \<in> set rows"
    then obtain p where r: "r = withAvgDiff (addStats d es (newRow p))"
      using rows by blast
    have id: "playerId r = player_id p" by (simp add: r)
    have 1: "totalDiff r =
        sum_list (map (\<lambda>e. case predictionDiff (player_id p) e of None \<Rightarrow> 0 | Some diff \<Rightarrow> diff) es)"
      by (simp add: r addStats_def newRow_def)
    have 2: "predictionCount r = length (filter (\<lambda>e. predictionDiff (player_id p) e \<noteq> None) es)"
      by (simp add: r addStats_def newRow_def)
    have 3: "exactHits r = length (filter (\<lambda>e. predictionDiff (player_id p) e = Some 0) es)"
      by (simp add: r addStats_def newRow_def)
    have "wins r =
        length (filter (\<lambda>e. predictionDiff (player_id p) e \<noteq> None \<and> isWinner d (player_id p) e) es)"
      by (simp add: r addStats_def newRow_def)
    also have "filter (\<lambda>e. predictionDiff (player_id p) e \<noteq> None \<and> isWinner d (player_id p) e) es
                 = filter (\<lambda>e. isWinner d (player_id p) e) es"
      by (rule filter_cong [OF refl]) (use pred in blast)
    finally have 4: "wins r = length (filter (\<lambda>e. isWinner d (player_id p) e) es)" .
    have "points r = sum_list (map (pointsFor d (player_id p)) es)"
      by (simp add: r addStats_def newRow_def)
    also have "map (pointsFor d (player_id p)) es =
        map (\<lambda>e. if isWinner d (player_id p) e
                  then 1 + (if predictionDiff (player_id p) e = Some 0 \<and>
                               0 < bonusExact (settings d)
                            then bonusExact (settings d) else 0)
                  else 0) es"
    proof (rule map_cong [OF refl])
      fix e assume e: "e \<in> set es"
      show "pointsFor d (player_id p) e =
          (if isWinner d (player_id p) e
           then 1 + (if predictionDiff (player_id p) e = Some 0 \<and> 0 < bonusExact (settings d)
                     then bonusExact (settings d) else 0)
           else 0)"
      proof (cases "predictionDiff (player_id p) e")
        case None
        have "\<not> isWinner d (player_id p) e"
          using pred [OF e, of "player_id p"] None by blast
        with None show ?thesis by (simp add: pointsFor_def)
      next
        case (Some diff)
        then show ?thesis by (simp add: pointsFor_def)
      qed
    qed
    finally have 5: "points r =
        sum_list (map (\<lambda>e. if isWinner d (player_id p) e
                  then 1 + (if predictionDiff (player_id p) e = Some 0 \<and>
                               0 < bonusExact (settings d)
                            then bonusExact (settings d) else 0)
                  else 0) es)" .
    show "totalDiff r =
          sum_list (map (\<lambda>e. case predictionDiff (playerId r) e of None \<Rightarrow> 0 | Some diff \<Rightarrow> diff) es) \<and>
        predictionCount r = length (filter (\<lambda>e. predictionDiff (playerId r) e \<noteq> None) es) \<and>
        exactHits r = length (filter (\<lambda>e. predictionDiff (playerId r) e = Some 0) es) \<and>
        wins r = length (filter (\<lambda>e. isWinner d (playerId r) e) es) \<and>
        points r =
          sum_list (map (\<lambda>e. if isWinner d (playerId r) e
                              then 1 + (if predictionDiff (playerId r) e = Some 0 \<and>
                                           0 < bonusExact (settings d)
                                        then bonusExact (settings d) else 0)
                              else 0) es)"
      unfolding id using 1 2 3 4 5 by (intro conjI) assumption+
  qed
  show ?thesis
    unfolding Let_def es_def [symmetric] rows_def [symmetric] using A B C E
    by (intro conjI) assumption+
qed

theorem buildScoreboard_accumulates_witness:
  "distinct (map player_id (players leagueData)) \<and>
   storedResult Innings1 leagueMatch = Some \<lparr>winners = [''A'', ''B''], closestDiff = Some 5\<rparr> \<and>
   length (buildScoreboard codeUnitCompare leagueData) = length (players leagueData) \<and>
   map playerId (buildScoreboard codeUnitCompare leagueData) = [''C'', ''B'', ''A'', ''D'', ''E''] \<and>
   map wins (buildScoreboard codeUnitCompare leagueData) = [1, 1, 1, 0, 0] \<and>
   map points (buildScoreboard codeUnitCompare leagueData) = [3, 1, 1, 0, 0] \<and>
   map totalDiff (buildScoreboard codeUnitCompare leagueData) = [0, 10, 15, 0, 30]"
proof -
  have "length (buildScoreboard codeUnitCompare leagueData) = length (players leagueData)"
    using buildScoreboard_accumulates [OF league_distinct league_stored, of codeUnitCompare,
        unfolded Let_def]
    by (elim conjE) assumption
  then show ?thesis using league_distinct
    by (simp add: league_scoreboard storedResult_def leagueMatch_def)
qed

text \<open>
  The hypothesis on the stored results is needed. The second loop of the aggregator runs
  over the players with a recorded prediction only: a stored result that names player A
  as the winner of a scored innings in which A has no prediction gives A no win and no
  point. No handler writes such a result.
\<close>

lemma stored_winner_without_prediction:
  "map playerId (buildScoreboard codeUnitCompare staleData) = [''A'', ''B''] \<and>
   map wins (buildScoreboard codeUnitCompare staleData) = [0, 0] \<and>
   map points (buildScoreboard codeUnitCompare staleData) = [0, 0] \<and>
   inningsOf Innings1 staleMatch = Some \<lparr>status = Scored, lockTime = Time 1000, score = Some 100\<rparr> \<and>
   winnersFor staleData staleMatch Innings1 100 = [''A'']"
  by (simp add: stale_scoreboard winnersFor_def storedResult_def staleMatch_def inningsOf_def
      sampleMatch_def)

text \<open>
  Claim C3. For a name comparison that is total and transitive, the rows of the
  scoreboard are in the order of points descending, then \<open>avgDiff\<close> ascending (a \<^verbatim>\<open>null\<close>
  \<open>avgDiff\<close> counting as 0), then name ascending. In particular, of two rows with equal
  points and non-null \<open>avgDiff\<close> the one with the lower \<open>avgDiff\<close> comes first, and rows with
  equal points and equal \<open>avgDiff\<close> are in name order. \<open>avgDiff\<close> is \<^verbatim>\<open>null\<close> when the
  player has no counted prediction, and otherwise the multiple of 1/100 nearest to
  \<open>totalDiff / predictionCount\<close>.
\<close>

theorem buildScoreboard_ordering:
  assumes "\<forall>x y. lc x y \<le> 0 \<or> lc y x \<le> 0"
    and "\<forall>x y z. lc x y \<le> 0 \<and> lc y z \<le> 0 \<longrightarrow> lc x z \<le> 0"
  shows "let rows = buildScoreboard lc d in
     (\<forall>i j. i < j \<and> j < length rows \<longrightarrow>
        points (rows ! j) \<le> points (rows ! i) \<and>
        (points (rows ! i) = points (rows ! j) \<longrightarrow>
           toNumber (avgDiff (rows ! i)) \<le> toNumber (avgDiff (rows ! j)) \<and>
           (toNumber (avgDiff (rows ! i)) = toNumber (avgDiff (rows ! j)) \<longrightarrow>
              lc (name (rows ! i)) (name (rows ! j)) \<le> 0))) \<and>
     (\<forall>i j x y. i < length rows \<and> j < length rows \<and> points (rows ! i) = points (rows ! j) \<and>
        avgDiff (rows ! i) = Some x \<and> avgDiff (rows ! j) = Some y \<and> x < y \<longrightarrow> i < j) \<and>
     (\<forall>i j. i < j \<and> j < length rows \<and> points (rows ! i) = points (rows ! j) \<and>
        avgDiff (rows ! i) = avgDiff (rows ! j) \<longrightarrow> lc (name (rows ! i)) (name (rows ! j)) \<le> 0) \<and>
     (\<forall>r\<in>set rows.
        (predictionCount r = 0 \<longrightarrow> avgDiff r = None) \<and>
        (predictionCount r \<noteq> 0 \<longrightarrow>
           (\<exists>q. avgDiff r = Some q \<and> q = of_int (round (q * 100)) / 100 \<and>
                \<bar>q - of_int (totalDiff r) / of_nat (predictionCount r)\<bar> \<le> 1 / 200)))"
proof -
  define rows where "rows = buildScoreboard lc d"
  have ord: "compareRows lc (rows ! i) (rows ! j) \<le> 0" if "i < j" "j < length rows" for i j
    using buildScoreboard_order [OF assms] that by (simp add: rows_def)
  have a: "points (rows ! j) \<le> points (rows ! i) \<and>
        (points (rows ! i) = points (rows ! j) \<longrightarrow>
           toNumber (avgDiff (rows ! i)) \<le> toNumber (avgDiff (rows ! j)) \<and>
           (toNumber (avgDiff (rows ! i)) = toNumber (avgDiff (rows ! j)) \<longrightarrow>
              lc (name (rows ! i)) (name (rows ! j)) \<le> 0))"
    if "i < j" "j < length rows" for i j
    using ord [OF that] unfolding compareRows_le_iff by auto
  have b: "i < j"
    if "i < length rows" "j < length rows" "points (rows ! i) = points (rows ! j)"
      "avgDiff (rows ! i) = Some x" "avgDiff (rows ! j) = Some y" "x < y" for i j x y
  proof (rule ccontr)
    assume "\<not> i < j"
    then consider "j < i" | "i = j" by linarith
    then show False
    proof cases
      case 1
      from a [OF 1 that(1)] that(3,4,5,6) show False by (simp add: toNumber_def)
    next
      case 2
      with that(4,5,6) show False by simp
    qed
  qed
  have c: "lc (name (rows ! i)) (name (rows ! j)) \<le> 0"
    if "i < j" "j < length rows" "points (rows ! i) = points (rows ! j)"
      "avgDiff (rows ! i) = avgDiff (rows ! j)" for i j
    using a [OF that(1,2)] that(3,4) by simp
  have e: "(predictionCount r = 0 \<longrightarrow> avgDiff r = None) \<and>
        (predictionCount r \<noteq> 0 \<longrightarrow>
           (\<exists>q. avgDiff r = Some q \<and> q = of_int (round (q * 100)) / 100 \<and>
                \<bar>q - of_int (totalDiff r) / of_nat (predictionCount r)\<bar> \<le> 1 / 200))"
    if "r \<in> set rows" for r
  proof (cases "predictionCount r = 0")
    case True
    with buildScoreboard_avgDiff [of r lc d] that show ?thesis by (simp add: rows_def)
  next
    case False
    define q where "q = toFixed2 (of_int (totalDiff r) / of_nat (predictionCount r))"
    have "avgDiff r = Some q"
      using buildScoreboard_avgDiff [of r lc d] that False by (simp add: rows_def q_def)
    moreover have "q = of_int (round (q * 100)) / 100"
      unfolding q_def by (rule toFixed2_hundredths)
    moreover have "\<bar>q - of_int (totalDiff r) / of_nat (predictionCount r)\<bar> \<le> 1 / 200"
      unfolding q_def by (rule toFixed2_near)
    ultimately show ?thesis using False by blast
  qed
  have A: "\<forall>i j. i < j \<and> j < length rows \<longrightarrow>
        points (rows ! j) \<le> points (rows ! i) \<and>
        (points (rows ! i) = points (rows ! j) \<longrightarrow>
           toNumber (avgDiff (rows ! i)) \<le> toNumber (avgDiff (rows ! j)) \<and>
           (toNumber (avgDiff (rows ! i)) = toNumber (avgDiff (rows ! j)) \<longrightarrow>
              lc (name (rows ! i)) (name (rows ! j)) \<le> 0))"
    using a by blast
  have B: "\<forall>i j x y. i < length rows \<and> j < length rows \<and> points (rows ! i) = points (rows ! j) \<and>
        avgDiff (rows ! i) = Some x \<and> avgDiff (rows ! j) = Some y \<and> x < y \<longrightarrow> i < j"
    using b by blast
  have C: "\<forall>i j. i < j \<and> j < length rows \<and> points (rows ! i) = points (rows ! j) \<and>
        avgDiff (rows ! i) = avgDiff (rows ! j) \<longrightarrow> lc (name (rows ! i)) (name (rows ! j)) \<le> 0"
    using c by blast
  have E: "\<forall>r\<in>set rows.
        (predictionCount r = 0 \<longrightarrow> avgDiff r = None) \<and>
        (predictionCount r \<noteq> 0 \<longrightarrow>
           (\<exists>q. avgDiff r = Some q \<and> q = of_int (round (q * 100)) / 100 \<and>
                \<bar>q - of_int (totalDiff r) / of_nat (predictionCount r)\<bar> \<le> 1 / 200))"
    using e by blast
  show ?thesis unfolding Let_def rows_def [symmetric] using A B C E by (intro conjI) assumption+
qed

theorem buildScoreboard_ordering_witness:
  "map name (buildScoreboard codeUnitCompare leagueData)
     = [''Chitra'', ''Bela'', ''Asha'', ''Dev'', ''Esha''] \<and>
   points (buildScoreboard codeUnitCompare leagueData ! 1)
     = points (buildScoreboard codeUnitCompare leagueData ! 2) \<and>
   avgDiff (buildScoreboard codeUnitCompare leagueData ! 1) = Some 5 \<and>
   avgDiff (buildScoreboard codeUnitCompare leagueData ! 2) = Some (15 / 2) \<and>
   toNumber (avgDiff (buildScoreboard codeUnitCompare leagueData ! 1))
     \<le> toNumber (avgDiff (buildScoreboard codeUnitCompare leagueData ! 2))"
proof -
  note t = buildScoreboard_ordering [OF codeUnitCompare_total codeUnitCompare_trans, of leagueData,
      unfolded Let_def, THEN conjunct1, THEN spec [where x = "1::nat"], THEN spec [where x = "2::nat"]]
  have e: "map name (buildScoreboard codeUnitCompare leagueData)
       = [''Chitra'', ''Bela'', ''Asha'', ''Dev'', ''Esha''] \<and>
     points (buildScoreboard codeUnitCompare leagueData ! 1)
       = points (buildScoreboard codeUnitCompare leagueData ! 2) \<and>
     avgDiff (buildScoreboard codeUnitCompare leagueData ! 1) = Some 5 \<and>
     avgDiff (buildScoreboard codeUnitCompare leagueData ! 2) = Some (15 / 2) \<and>
     toNumber (avgDiff (buildScoreboard codeUnitCompare leagueData ! 1))
       \<le> toNumber (avgDiff (buildScoreboard codeUnitCompare leagueData ! 2))"
    using t by (simp add: league_scoreboard)
  show ?thesis by (rule e)
qed

text \<open>
  Claim C10. The comparator treats a row whose \<open>avgDiff\<close> is \<^verbatim>\<open>null\<close> as it treats the
  row with \<open>avgDiff\<close> 0. So among rows with equal points a player with no predictions
  comes before every player with a positive \<open>avgDiff\<close>, and rows whose \<open>avgDiff\<close> is
  \<^verbatim>\<open>null\<close> or 0 are in name order.
\<close>

theorem null_avgDiff_sorts_as_zero:
  assumes "\<forall>x y. lc x y \<le> 0 \<or> lc y x \<le> 0"
    and "\<forall>x y z. lc x y \<le> 0 \<and> lc y z \<le> 0 \<longrightarrow> lc x z \<le> 0"
  shows "let rows = buildScoreboard lc d in
     (\<forall>a b. avgDiff a = None \<longrightarrow>
        compareRows lc a b = compareRows lc (a\<lparr>avgDiff := Some 0\<rparr>) b \<and>
        compareRows lc b a = compareRows lc b (a\<lparr>avgDiff := Some 0\<rparr>)) \<and>
     (\<forall>i j x. i < length rows \<and> j < length rows \<and> points (rows ! i) = points (rows ! j) \<and>
        avgDiff (rows ! i) = None \<and> avgDiff (rows ! j) = Some x \<and> 0 < x \<longrightarrow> i < j) \<and>
     (\<forall>i j. i < j \<and> j < length rows \<and> points (rows ! i) = points (rows ! j) \<and>
        (avgDiff (rows ! i) = None \<or> avgDiff (rows ! i) = Some 0) \<and>
        (avgDiff (rows ! j) = None \<or> avgDiff (rows ! j) = Some 0) \<longrightarrow>
        lc (name (rows ! i)) (name (rows ! j)) \<le> 0)"
proof -
  define rows where "rows = buildScoreboard lc d"
  have ord: "compareRows lc (rows ! i) (rows ! j) \<le> 0" if "i < j" "j < length rows" for i j
    using buildScoreboard_order [OF assms] that by (simp add: rows_def)
  have a: "compareRows lc a b = compareRows lc (a\<lparr>avgDiff := Some 0\<rparr>) b \<and>
        compareRows lc b a = compareRows lc b (a\<lparr>avgDiff := Some 0\<rparr>)"
    if "avgDiff a = None" for a b :: scoreRow
    using that by (simp add: compareRows_def toNumber_def)
  have b: "i < j"
    if "i < length rows" "j < length rows" "points (rows ! i) = points (rows ! j)"
      "avgDiff (rows ! i) = None" "avgDiff (rows ! j) = Some x" "0 < x" for i j x
  proof (rule ccontr)
    assume "\<not> i < j"
    then consider "j < i" | "i = j" by linarith
    then show False
    proof cases
      case 1
      from ord [OF 1 that(1)] that(3,4,5,6) show False
        by (simp add: compareRows_le_iff toNumber_def)
    next
      case 2
      with that(4,5) show False by simp
    qed
  qed
  have c: "lc (name (rows ! i)) (name (rows ! j)) \<le> 0"
    if "i < j" "j < length rows" "points (rows ! i) = points (rows ! j)"
      "avgDiff (rows ! i) = None \<or> avgDiff (rows ! i) = Some 0"
      "avgDiff (rows ! j) = None \<or> avgDiff (rows ! j) = Some 0" for i j
    using ord [OF that(1,2)] that(3,4,5) by (auto simp: compareRows_le_iff toNumber_def)
  show ?thesis unfolding Let_def rows_def [symmetric] using a b c by blast
qed

theorem null_avgDiff_sorts_as_zero_witness:
  "map playerId (map withAvgDiff (accumulate leagueData)) = [''A'', ''B'', ''C'', ''E'', ''D''] \<and>
   map playerId (buildScoreboard codeUnitCompare leagueData) = [''C'', ''B'', ''A'', ''D'', ''E''] \<and>
   points (buildScoreboard codeUnitCompare leagueData ! 3)
     = points (buildScoreboard codeUnitCompare leagueData ! 4) \<and>
   avgDiff (buildScoreboard codeUnitCompare leagueData ! 3) = None \<and>
   avgDiff (buildScoreboard codeUnitCompare leagueData ! 4) = Some 30 \<and> (3::nat) < 4"
proof -
  note t = null_avgDiff_sorts_as_zero [OF codeUnitCompare_total codeUnitCompare_trans, of leagueData,
      unfolded Let_def, THEN conjunct2, THEN conjunct1, THEN spec [where x = "3::nat"],
      THEN spec [where x = "4::nat"], THEN spec [where x = "30::rat"]]
  have acc: "map playerId (map withAvgDiff (accumulate leagueData)) = [''A'', ''B'', ''C'', ''E'', ''D'']"
    using accumulate_eq [OF league_distinct]
    by (simp add: leagueData_def leaguePlayers_def comp_def)
  have e: "map playerId (map withAvgDiff (accumulate leagueData)) = [''A'', ''B'', ''C'', ''E'', ''D''] \<and>
     map playerId (buildScoreboard codeUnitCompare leagueData) = [''C'', ''B'', ''A'', ''D'', ''E''] \<and>
     points (buildScoreboard codeUnitCompare leagueData ! 3)
       = points (buildScoreboard codeUnitCompare leagueData ! 4) \<and>
     avgDiff (buildScoreboard codeUnitCompare leagueData ! 3) = None \<and>
     avgDiff (buildScoreboard codeUnitCompare leagueData ! 4) = Some 30 \<and> (3::nat) < 4"
    using t acc by (simp add: league_scoreboard)
  show ?thesis by (rule e)
qed

end
